theory Spec2Isabelle
  imports Main "HOL-Library.Monad_Syntax"
begin

unbundle bit_operations_syntax

section \<open>The location codec\<close>

text \<open>
  The StarCraft 2 client (\<^verbatim>\<open>worlds/sc2/client.py\<close>) names a location by one integer,
  \<^verbatim>\<open>offset + mission_id * VICTORY_MODULO + objective\<close>. The encoder is
  \<^verbatim>\<open>get_location_id\<close>; the decoder is the body of the loop of
  \<^verbatim>\<open>SC2Context.build_location_to_mission_mapping\<close>.

  Three constants are imported from modules that are not part of the sources at hand
  (\<^verbatim>\<open>locations.SC2WOL_LOC_ID_OFFSET\<close>, \<^verbatim>\<open>locations.SC2HOTS_LOC_ID_OFFSET\<close> and
  \<^verbatim>\<open>mission_tables.SC2Mission.ALL_IN.id\<close>); they are the fields of a record that every
  function of the codec takes as its first argument. Python integers are unbounded, so
  they are \<^typ>\<open>int\<close>; Python's \<^verbatim>\<open>divmod\<close> by a positive number rounds down, as
  \<open>div\<close> and \<open>mod\<close> on \<^typ>\<open>int\<close> do.
\<close>

record location_consts =
  SC2WOL_LOC_ID_OFFSET :: int
  SC2HOTS_LOC_ID_OFFSET :: int
  ALL_IN_id :: int

definition VICTORY_MODULO :: int where
  "VICTORY_MODULO = 100"

definition get_location_offset :: "location_consts \<Rightarrow> int \<Rightarrow> int" where
  "get_location_offset K mission_id =
     (if mission_id \<le> ALL_IN_id K then SC2WOL_LOC_ID_OFFSET K
      else SC2HOTS_LOC_ID_OFFSET K - ALL_IN_id K * VICTORY_MODULO)"

definition get_location_id :: "location_consts \<Rightarrow> int \<Rightarrow> int \<Rightarrow> int" where
  "get_location_id K mission_id objective_id =
     get_location_offset K mission_id + mission_id * VICTORY_MODULO + objective_id"

text \<open>
  The decoder, as \<^verbatim>\<open>build_location_to_mission_mapping\<close> computes it for one server
  location \<^verbatim>\<open>loc\<close>: the offset is chosen by comparing the id itself with the later
  expansion's offset, then \<^verbatim>\<open>divmod(loc - offset, VICTORY_MODULO)\<close>.
\<close>

definition decode_offset :: "location_consts \<Rightarrow> int \<Rightarrow> int" where
  "decode_offset K loc =
     (if loc < SC2HOTS_LOC_ID_OFFSET K then SC2WOL_LOC_ID_OFFSET K
      else SC2HOTS_LOC_ID_OFFSET K - ALL_IN_id K * VICTORY_MODULO)"

definition decode_location :: "location_consts \<Rightarrow> int \<Rightarrow> int \<times> int" where
  "decode_location K loc =
     ((loc - decode_offset K loc) div VICTORY_MODULO,
      (loc - decode_offset K loc) mod VICTORY_MODULO)"

text \<open>
  The two offset regimes do not overlap when the ids of the earlier expansion, up to the
  last objective of mission \<^verbatim>\<open>ALL_IN\<close>, lie below the later expansion's offset.
\<close>

definition regimes_separated :: "location_consts \<Rightarrow> bool" where
  "regimes_separated K \<longleftrightarrow>
     SC2WOL_LOC_ID_OFFSET K + (ALL_IN_id K + 1) * VICTORY_MODULO \<le> SC2HOTS_LOC_ID_OFFSET K"

text \<open>An instance of the constants, used where a statement is evaluated.\<close>

definition example_consts :: location_consts where
  "example_consts =
     \<lparr>SC2WOL_LOC_ID_OFFSET = 1000, SC2HOTS_LOC_ID_OFFSET = 20000000, ALL_IN_id = 29\<rparr>"

text \<open>
  The encoder as the specification words it: an objective index outside \<open>[0, 99]\<close> is
  refused with \<open>InvalidObjective\<close>. It is compared with \<^const>\<open>get_location_id\<close> below.
\<close>

datatype codec_error = InvalidObjective

definition encode_spec :: "location_consts \<Rightarrow> int \<Rightarrow> int \<Rightarrow> codec_error + int" where
  "encode_spec K mission_id objective_index =
     (if 0 \<le> objective_index \<and> objective_index \<le> 99
      then Inr (get_location_offset K mission_id + mission_id * 100 + objective_index)
      else Inl InvalidObjective)"

section \<open>The mission hierarchy and the client context\<close>

text \<open>
  The classes \<^verbatim>\<open>CampaignSlotData\<close>, \<^verbatim>\<open>LayoutSlotData\<close> and \<^verbatim>\<open>MissionSlotData\<close> are
  declared in \<^verbatim>\<open>mission_order/structs.py\<close>, outside the sources at hand. The records keep
  the fields that \<^verbatim>\<open>client.py\<close> reads: a campaign's \<^verbatim>\<open>entry_rule\<close> and \<^verbatim>\<open>layouts\<close>, a
  layout's \<^verbatim>\<open>entry_rule\<close> and \<^verbatim>\<open>missions\<close> (a list of columns), a mission slot's
  \<^verbatim>\<open>mission_id\<close> (\<open>-1\<close> for an empty slot) and \<^verbatim>\<open>entry_rule\<close>. The three
  \<^verbatim>\<open>entry_rule\<close> fields carry the name of their class, since a field name is a constant.
  The type of the rules is a parameter \<open>'r\<close>.
\<close>

record 'r MissionSlotData =
  mission_id :: int
  mission_entry_rule :: 'r

record 'r LayoutSlotData =
  layout_entry_rule :: 'r
  missions :: "'r MissionSlotData list list"

record 'r CampaignSlotData =
  campaign_entry_rule :: 'r
  layouts :: "'r LayoutSlotData list"

text \<open>\<^verbatim>\<open>NetUtils.NetworkItem\<close>: the four fields of a received item.\<close>

record NetworkItem =
  item :: int
  location :: int
  player :: int
  flags :: int

text \<open>
  The fields of \<^verbatim>\<open>SC2Context\<close> that the functions below read. A dictionary is an
  association list, looked up with \<^const>\<open>map_of\<close> and iterated in the order of its
  entries; \<^verbatim>\<open>mission_id_to_entry_rules\<close> maps a mission id to the triple
  \<^verbatim>\<open>MissionEntryRules(mission_rule, layout_rule, campaign_rule)\<close>.
\<close>

record 'r SC2Context =
  items_received :: "NetworkItem list"
  checked_locations :: "int set"
  custom_mission_order :: "'r CampaignSlotData list"
  mission_id_to_entry_rules :: "(int \<times> 'r \<times> 'r \<times> 'r) list"
  mission_id_to_location_ids :: "(int \<times> int list) list"
  slot_data_version :: int
  minerals_per_item :: int
  vespene_per_item :: int
  starting_supply_per_item :: int
  generic_upgrade_missions :: int
  kerrigan_levels_per_mission_completed :: int
  kerrigan_levels_per_mission_completed_cap :: int
  kerrigan_total_level_cap :: int

definition is_mission_completed :: "location_consts \<Rightarrow> ('r, 'x) SC2Context_scheme \<Rightarrow> int \<Rightarrow> bool" where
  "is_mission_completed K ctx mission = (get_location_id K mission 0 \<in> checked_locations ctx)"

text \<open>
  \<^verbatim>\<open>locations_for_mission_id\<close> reads \<^verbatim>\<open>mission_id_to_location_ids[mission_id]\<close>, which
  raises \<^verbatim>\<open>KeyError\<close> for an unknown mission: \<open>None\<close> here.
\<close>

definition locations_for_mission_id ::
  "location_consts \<Rightarrow> ('r, 'x) SC2Context_scheme \<Rightarrow> int \<Rightarrow> int list option" where
  "locations_for_mission_id K ctx mission =
     (case map_of (mission_id_to_location_ids ctx) mission of
        None \<Rightarrow> None
      | Some objectives \<Rightarrow> Some (map (get_location_id K mission) objectives))"

section \<open>Available and unfinished nodes\<close>

text \<open>
  \<^verbatim>\<open>calc_available_nodes\<close> calls the method \<^verbatim>\<open>is_accessible\<close> of an entry rule, which is
  defined in \<^verbatim>\<open>mission_order/entry_rules.py\<close>, outside the sources at hand. It is a
  parameter \<open>ia\<close> here, with the arguments in the order of the call:
  \<^verbatim>\<open>rule.is_accessible(beaten_missions, received_items, mission_id_to_entry_rules,
  accessible_rules, seen_rules)\<close>. The set \<^verbatim>\<open>accessible_rules\<close> is created once and handed
  to every call, so a call may add to it: \<open>ia\<close> returns the set as the call leaves it
  together with the boolean.
\<close>

type_synonym 'r is_accessible_fn =
  "'r \<Rightarrow> int set \<Rightarrow> (int \<rightharpoonup> int) \<Rightarrow> (int \<times> 'r \<times> 'r \<times> 'r) list \<Rightarrow> int set \<Rightarrow> int list
     \<Rightarrow> bool \<times> int set"

text \<open>The state of the loops: the three results and the set \<^verbatim>\<open>accessible_rules\<close>.\<close>

record avail_state =
  available_missions :: "int list"
  available_layouts :: "nat \<rightharpoonup> nat list"
  available_campaigns :: "nat list"
  accessible_rules :: "int set"

definition beaten_missions_of :: "location_consts \<Rightarrow> ('r, 'x) SC2Context_scheme \<Rightarrow> int set" where
  "beaten_missions_of K ctx =
     set (filter (is_mission_completed K ctx) (map fst (mission_id_to_entry_rules ctx)))"

text \<open>
  \<^verbatim>\<open>received_items.setdefault(network_item.item, 0)\<close>, then
  \<^verbatim>\<open>received_items[network_item.item] += 1\<close>, for every received item.
\<close>

fun received_items_of :: "(int \<rightharpoonup> int) \<Rightarrow> NetworkItem list \<Rightarrow> (int \<rightharpoonup> int)" where
  "received_items_of received [] = received"
| "received_items_of received (network_item # rest) =
     received_items_of
       (received(item network_item \<mapsto>
          (case received (item network_item) of None \<Rightarrow> 0 | Some n \<Rightarrow> n) + 1)) rest"

text \<open>
  The loops take the evaluation \<open>ev rule cache\<close> of one entry rule against the snapshot;
  \<^verbatim>\<open>calc_available_nodes\<close> below builds it from \<open>ia\<close>. The innermost loop runs over the
  mission slots of one column.
\<close>

fun missions_loop ::
  "('r \<Rightarrow> int set \<Rightarrow> bool \<times> int set) \<Rightarrow> avail_state \<Rightarrow> 'r MissionSlotData list \<Rightarrow> avail_state" where
  "missions_loop ev st [] = st"
| "missions_loop ev st (mission # rest) =
     (if mission_id mission = - 1 then missions_loop ev st rest
      else
        (case ev (mission_entry_rule mission) (accessible_rules st) of
           (ok, rules) \<Rightarrow>
             missions_loop ev
               (st\<lparr>available_missions :=
                     (if ok then available_missions st @ [mission_id mission]
                      else available_missions st),
                   accessible_rules := rules\<rparr>) rest))"

fun columns_loop ::
  "('r \<Rightarrow> int set \<Rightarrow> bool \<times> int set) \<Rightarrow> avail_state \<Rightarrow> 'r MissionSlotData list list \<Rightarrow> avail_state" where
  "columns_loop ev st [] = st"
| "columns_loop ev st (column # rest) = columns_loop ev (missions_loop ev st column) rest"

text \<open>
  The loop over \<^verbatim>\<open>enumerate(campaign.layouts)\<close>; \<open>layout_idx\<close> is the index of the head
  of the list. \<^verbatim>\<open>available_layouts[campaign_idx].append(layout_idx)\<close> finds its key,
  which the campaign loop has set just before.
\<close>

fun layouts_loop ::
  "('r \<Rightarrow> int set \<Rightarrow> bool \<times> int set) \<Rightarrow> nat \<Rightarrow> avail_state \<Rightarrow> nat \<Rightarrow> 'r LayoutSlotData list
     \<Rightarrow> avail_state" where
  "layouts_loop ev campaign_idx st layout_idx [] = st"
| "layouts_loop ev campaign_idx st layout_idx (layout # rest) =
     (case ev (layout_entry_rule layout) (accessible_rules st) of
        (ok, rules) \<Rightarrow>
          (if ok then
             layouts_loop ev campaign_idx
               (columns_loop ev
                  (st\<lparr>available_layouts :=
                        (available_layouts st)(campaign_idx \<mapsto>
                           (case available_layouts st campaign_idx of
                              None \<Rightarrow> [] | Some ls \<Rightarrow> ls) @ [layout_idx]),
                      accessible_rules := rules\<rparr>)
                  (missions layout))
               (Suc layout_idx) rest
           else
             layouts_loop ev campaign_idx (st\<lparr>accessible_rules := rules\<rparr>)
               (Suc layout_idx) rest))"

fun campaigns_loop ::
  "('r \<Rightarrow> int set \<Rightarrow> bool \<times> int set) \<Rightarrow> avail_state \<Rightarrow> nat \<Rightarrow> 'r CampaignSlotData list
     \<Rightarrow> avail_state" where
  "campaigns_loop ev st campaign_idx [] = st"
| "campaigns_loop ev st campaign_idx (campaign # rest) =
     (case ev (campaign_entry_rule campaign)
             (accessible_rules (st\<lparr>available_layouts :=
                                    (available_layouts st)(campaign_idx \<mapsto> [])\<rparr>)) of
        (ok, rules) \<Rightarrow>
          (if ok then
             campaigns_loop ev
               (layouts_loop ev campaign_idx
                  (st\<lparr>available_layouts := (available_layouts st)(campaign_idx \<mapsto> []),
                      available_campaigns := available_campaigns st @ [campaign_idx],
                      accessible_rules := rules\<rparr>)
                  0 (layouts campaign))
               (Suc campaign_idx) rest
           else
             campaigns_loop ev
               (st\<lparr>available_layouts := (available_layouts st)(campaign_idx \<mapsto> []),
                   accessible_rules := rules\<rparr>)
               (Suc campaign_idx) rest))"

text \<open>
  The snapshot \<^verbatim>\<open>beaten_missions\<close>, \<^verbatim>\<open>received_items\<close> is computed once, before the loops;
  every call of \<^verbatim>\<open>is_accessible\<close> gets it, the dictionary of the entry rules, the shared
  set \<^verbatim>\<open>accessible_rules\<close> and a fresh empty list \<^verbatim>\<open>[]\<close>.
\<close>

definition snapshot_eval ::
  "'r is_accessible_fn \<Rightarrow> location_consts \<Rightarrow> ('r, 'x) SC2Context_scheme
     \<Rightarrow> 'r \<Rightarrow> int set \<Rightarrow> bool \<times> int set" where
  "snapshot_eval ia K ctx rule cache =
     ia rule (beaten_missions_of K ctx) (received_items_of Map.empty (items_received ctx))
        (mission_id_to_entry_rules ctx) cache []"

definition initial_avail_state :: avail_state where
  "initial_avail_state =
     \<lparr>available_missions = [], available_layouts = Map.empty, available_campaigns = [],
      accessible_rules = {}\<rparr>"

definition calc_available_nodes ::
  "'r is_accessible_fn \<Rightarrow> location_consts \<Rightarrow> ('r, 'x) SC2Context_scheme
     \<Rightarrow> int list \<times> (nat \<rightharpoonup> nat list) \<times> nat list" where
  "calc_available_nodes ia K ctx =
     (let st = campaigns_loop (snapshot_eval ia K ctx) initial_avail_state 0
                 (custom_mission_order ctx)
      in (available_missions st, available_layouts st, available_campaigns st))"

definition is_mission_available ::
  "'r is_accessible_fn \<Rightarrow> location_consts \<Rightarrow> ('r, 'x) SC2Context_scheme \<Rightarrow> int \<Rightarrow> bool" where
  "is_mission_available ia K ctx mission_id_to_check =
     (case calc_available_nodes ia K ctx of
        (available, _, _) \<Rightarrow> mission_id_to_check \<in> set available)"

text \<open>
  The loop of \<^verbatim>\<open>calc_unfinished_nodes\<close> over the available missions. It stops with
  \<open>None\<close> where \<^verbatim>\<open>locations_for_mission_id\<close> raises.
\<close>

fun unfinished_loop ::
  "location_consts \<Rightarrow> ('r, 'x) SC2Context_scheme \<Rightarrow> int set \<Rightarrow> int list \<Rightarrow> int set option" where
  "unfinished_loop K ctx unfinished_missions [] = Some unfinished_missions"
| "unfinished_loop K ctx unfinished_missions (mission # rest) =
     (case locations_for_mission_id K ctx mission of
        None \<Rightarrow> None
      | Some locs \<Rightarrow>
          (let objectives = set locs in
           if objectives \<noteq> {} then
             (let objectives_completed = checked_locations ctx \<inter> objectives in
              if card objectives_completed < card objectives
              then unfinished_loop K ctx (insert mission unfinished_missions) rest
              else unfinished_loop K ctx unfinished_missions rest)
           else unfinished_loop K ctx unfinished_missions rest))"

definition calc_unfinished_nodes ::
  "'r is_accessible_fn \<Rightarrow> location_consts \<Rightarrow> ('r, 'x) SC2Context_scheme
     \<Rightarrow> (int list \<times> (nat \<rightharpoonup> nat list) \<times> nat list \<times> int set) option" where
  "calc_unfinished_nodes ia K ctx =
     (case calc_available_nodes ia K ctx of
        (missions_found, layouts_found, campaigns_found) \<Rightarrow>
          (case unfinished_loop K ctx {} missions_found of
             None \<Rightarrow> None
           | Some unfinished_missions \<Rightarrow>
               Some (missions_found, layouts_found, campaigns_found, unfinished_missions)))"


section \<open>The rule evaluator\<close>

text \<open>
  Modelled from the spec: the entry rules and their method \<^verbatim>\<open>is_accessible\<close> live in
  \<^verbatim>\<open>mission_order/entry_rules.py\<close>, which is missing from the sources at hand. The
  specification (sections 3, 4.2 and 9) describes a rule graph held as an arena of nodes
  by integer id: a \<open>SubRule\<close> has a unique rule id, a list of child rule references and a
  required count \<open>amount\<close>; a \<open>CountRule\<close> has a list of targets, which are missions or
  items, and a required count \<open>amount\<close>. A reference to a \<open>SubRule\<close> is its id; the graph
  maps the id to the children and the amount, so that a rule may be reachable from itself.
\<close>

datatype target_kind = MissionTargets | ItemTargets

datatype rule_ref = SubRule int | CountRule target_kind "int list" int

type_synonym rule_graph = "(int \<times> rule_ref list \<times> int) list"

text \<open>
  Modelled from the spec: the count of a \<open>CountRule\<close> (the evaluator is missing from the
  sources). For missions it is the number of targets that are completed; for items it is
  the sum of the received counts of the named items.
\<close>

definition count_satisfied :: "int set \<Rightarrow> (int \<rightharpoonup> int) \<Rightarrow> target_kind \<Rightarrow> int list \<Rightarrow> int" where
  "count_satisfied completed received kind targets =
     (case kind of
        MissionTargets \<Rightarrow> int (length (filter (\<lambda>t. t \<in> completed) targets))
      | ItemTargets \<Rightarrow>
          sum_list (map (\<lambda>t. case received t of None \<Rightarrow> 0 | Some n \<Rightarrow> n) targets))"

text \<open>
  Modelled from the spec: \<open>isAccessible(rule, completedMissions, receivedCounts)\<close> of
  section 4.2, whose code (\<^verbatim>\<open>is_accessible\<close>) is missing from the sources. A
  \<open>CountRule\<close> is accessible iff its count reaches \<open>amount\<close>. A \<open>SubRule\<close> is accessible iff
  at least \<open>amount\<close> of its children are, its children being evaluated in order until the
  threshold is reached. The list \<open>in_progress\<close> holds the rule ids on the active recursion
  path: a \<open>SubRule\<close> whose id is in it is not accessible; otherwise its children are
  evaluated with the id added, and the siblings of the rule see the list without it (the
  removal on exit). A reference to an id that the graph does not hold, which the
  specification rules out when the hierarchy is built, is not accessible.
\<close>

function is_accessible ::
    "rule_graph \<Rightarrow> int set \<Rightarrow> (int \<rightharpoonup> int) \<Rightarrow> int list \<Rightarrow> rule_ref \<Rightarrow> bool"
  and enough_accessible ::
    "rule_graph \<Rightarrow> int set \<Rightarrow> (int \<rightharpoonup> int) \<Rightarrow> int list \<Rightarrow> int \<Rightarrow> rule_ref list \<Rightarrow> bool"
  where
  "is_accessible G completed received in_progress (CountRule kind targets amount) =
     (amount \<le> count_satisfied completed received kind targets)"
| "is_accessible G completed received in_progress (SubRule rule_id) =
     (if rule_id \<in> set in_progress then False
      else
        (case map_of G rule_id of
           None \<Rightarrow> False
         | Some (children, amount) \<Rightarrow>
             enough_accessible G completed received (rule_id # in_progress) amount children))"
| "enough_accessible G completed received in_progress needed [] = (needed \<le> 0)"
| "enough_accessible G completed received in_progress needed (child # rest) =
     (if needed \<le> 0 then True
      else if is_accessible G completed received in_progress child
      then enough_accessible G completed received in_progress (needed - 1) rest
      else enough_accessible G completed received in_progress needed rest)"
  by pat_completeness auto

text \<open>
  The evaluation terminates on every graph, cyclic or not: each descent into a \<open>SubRule\<close>
  adds an id of the graph that was not in progress, and the graph holds finitely many.
\<close>

lemma in_progress_grows:
  assumes "rule_id \<notin> set in_progress" and "map_of G rule_id = Some node"
  shows "card (fst ` set G - set (rule_id # in_progress)) < card (fst ` set G - set in_progress)"
proof -
  have "rule_id \<in> fst ` set G"
    using assms(2) by (metis map_of_SomeD fst_conv image_eqI)
  then have "rule_id \<in> fst ` set G - set in_progress"
    using assms(1) by simp
  moreover have "fst ` set G - set (rule_id # in_progress) =
      (fst ` set G - set in_progress) - {rule_id}"
    by auto
  moreover have "finite (fst ` set G - set in_progress)" by simp
  ultimately show ?thesis
    by (metis card_Diff1_less)
qed

termination is_accessible
  by (relation "measures
        [\<lambda>x. case x of
                Inl (G, completed, received, in_progress, rule) \<Rightarrow>
                  card (fst ` set G - set in_progress)
              | Inr (G, completed, received, in_progress, needed, children) \<Rightarrow>
                  card (fst ` set G - set in_progress),
         \<lambda>x. case x of
                Inl (G, completed, received, in_progress, rule) \<Rightarrow> 0
              | Inr (G, completed, received, in_progress, needed, children) \<Rightarrow>
                  Suc (length children)]")
     (auto simp: in_progress_grows simp del: set_simps)

text \<open>
  Modelled from the spec: the evaluator of the specification in the place of the missing
  method \<^verbatim>\<open>is_accessible\<close>, with the arguments of the call in \<^verbatim>\<open>calc_available_nodes\<close>.
  The specification's evaluator has neither the dictionary of the entry rules nor the set
  \<^verbatim>\<open>accessible_rules\<close>: the first is not read, the second is returned as it came.
\<close>

definition spec_is_accessible :: "rule_graph \<Rightarrow> rule_ref is_accessible_fn" where
  "spec_is_accessible G rule beaten received entry_rules accessible seen =
     (is_accessible G beaten received seen rule, accessible)"

section \<open>An example hierarchy\<close>

text \<open>
  Two campaigns. The first is always open (its rule 0 asks for none of no children) and
  holds two layouts. The first, whose rule 1 asks for two copies of the item 900, has one
  column: mission 10 (rule 2, always open), an empty slot, and mission 11, whose rule 3
  asks for mission 10. The second, whose rule 5 asks for three copies of the item 900,
  holds mission 13. The second campaign (rule 4) asks for mission 99 and holds mission 12.
  Missions 10 and 11 are beaten; mission 10 has a second objective that is not checked;
  the item 900 has been received twice.
\<close>

definition example_graph :: rule_graph where
  "example_graph =
     [(0, [], 0), (1, [CountRule ItemTargets [900] 2], 1), (2, [], 0),
      (3, [CountRule MissionTargets [10] 1], 1),
      (4, [CountRule MissionTargets [99] 1], 1),
      (5, [CountRule ItemTargets [900] 3], 1)]"

definition example_campaigns :: "rule_ref CampaignSlotData list" where
  "example_campaigns =
     [\<lparr>campaign_entry_rule = SubRule 0,
       layouts =
         [\<lparr>layout_entry_rule = SubRule 1,
           missions =
             [[\<lparr>mission_id = 10, mission_entry_rule = SubRule 2\<rparr>,
               \<lparr>mission_id = - 1, mission_entry_rule = SubRule 2\<rparr>,
               \<lparr>mission_id = 11, mission_entry_rule = SubRule 3\<rparr>]]\<rparr>,
          \<lparr>layout_entry_rule = SubRule 5,
           missions = [[\<lparr>mission_id = 13, mission_entry_rule = SubRule 2\<rparr>]]\<rparr>]\<rparr>,
      \<lparr>campaign_entry_rule = SubRule 4,
       layouts =
         [\<lparr>layout_entry_rule = SubRule 1,
           missions = [[\<lparr>mission_id = 12, mission_entry_rule = SubRule 2\<rparr>]]\<rparr>]\<rparr>]"

definition example_ctx :: "rule_ref SC2Context" where
  "example_ctx =
     \<lparr>items_received =
        [\<lparr>item = 900, location = 0, player = 1, flags = 0\<rparr>,
         \<lparr>item = 900, location = 0, player = 1, flags = 0\<rparr>],
      checked_locations = {2000, 2100},
      custom_mission_order = example_campaigns,
      mission_id_to_entry_rules =
        [(10, SubRule 2, SubRule 1, SubRule 0), (11, SubRule 3, SubRule 1, SubRule 0),
         (13, SubRule 2, SubRule 5, SubRule 0), (12, SubRule 2, SubRule 1, SubRule 4)],
      mission_id_to_location_ids = [(10, [0, 1]), (11, [0]), (13, [0]), (12, [0])],
      slot_data_version = 4,
      minerals_per_item = 15,
      vespene_per_item = 15,
      starting_supply_per_item = 2,
      generic_upgrade_missions = 0,
      kerrigan_levels_per_mission_completed = 0,
      kerrigan_levels_per_mission_completed_cap = - 1,
      kerrigan_total_level_cap = - 1\<rparr>"

section \<open>Item tables\<close>

text \<open>
  \<^verbatim>\<open>calculate_items\<close> reads tables of \<^verbatim>\<open>item/item_tables.py\<close>, \<^verbatim>\<open>item/item_names.py\<close>,
  \<^verbatim>\<open>options.py\<close> and \<^verbatim>\<open>mission_tables.py\<close>, none of which is among the sources at hand.
  The tables are the fields of a record that the functions take as their first argument.

  \<^verbatim>\<open>item_names\<close> holds one string per item, all distinct. The names that \<^verbatim>\<open>client.py\<close>
  refers to are constructors here; any other item name is \<open>OTHER_ITEM\<close> with its text.
\<close>

datatype SC2Race = ANY | TERRAN | ZERG | PROTOSS

datatype item_name =
    PHOTON_CANNON
  | OBSERVER
  | WARP_HARMONIZATION
  | PROGRESSIVE_PROTOSS_GROUND_WEAPON
  | PROGRESSIVE_PROTOSS_GROUND_ARMOR
  | PROGRESSIVE_PROTOSS_SHIELDS
  | PROGRESSIVE_PROTOSS_AIR_WEAPON
  | PROGRESSIVE_PROTOSS_AIR_ARMOR
  | PROGRESSIVE_PROTOSS_WEAPON_ARMOR_UPGRADE
  | PROGRESSIVE_PROTOSS_GROUND_UPGRADE
  | PROGRESSIVE_PROTOSS_AIR_UPGRADE
  | DESTROYER_REFORGED_BLOODSHARD_CORE
  | OBSERVER_INDUCE_SCOPOPHOBIA
  | PROGRESSIVE_REGENERATIVE_BIO_STEEL
  | PROGRESSIVE_ORBITAL_COMMAND
  | STARTING_MINERALS
  | STARTING_VESPENE
  | STARTING_SUPPLY
  | COMMAND_CENTER_SCANNER_SWEEP
  | COMMAND_CENTER_MULE
  | COMMAND_CENTER_EXTRA_SUPPLIES
  | PLANETARY_FORTRESS_ORBITAL_MODULE
  | OTHER_ITEM string

text \<open>
  A member of an item type enumeration (\<^verbatim>\<open>TerranItemType\<close>, \<^verbatim>\<open>ZergItemType\<close>,
  \<^verbatim>\<open>ProtossItemType\<close>, ...): its name in its class and its \<^verbatim>\<open>flag_word\<close>, the index of
  the accumulator it goes to (negative for a type with no accumulator).
\<close>

record item_type =
  member_name :: string
  flag_word :: int

text \<open>The fields of \<^verbatim>\<open>ItemData\<close> that the client reads.\<close>

record ItemData =
  code :: int
  type :: item_type
  number :: int
  race :: SC2Race
  quantity :: int

text \<open>
  The tables. \<^verbatim>\<open>get_full_item_list()\<close>, \<^verbatim>\<open>lookup_id_to_name\<close>, \<^verbatim>\<open>race_to_item_type\<close> and
  \<^verbatim>\<open>upgrade_bundles\<close> are dictionaries; \<^verbatim>\<open>race_to_item_type\<close> maps a race to its
  enumeration class, the list of its members. \<open>bundle_all_upgrades\<close> is the set
  \<^verbatim>\<open>upgrade_included_names[GenericUpgradeItems.option_bundle_all]\<close>, in the order in which
  it is iterated. \<open>percent_of_missions g total\<close> stands for the floating point expression
  \<^verbatim>\<open>int((g / 100) * total)\<close>, which is not computed here: no statement below depends on
  its value.
\<close>

record item_tables =
  full_item_list :: "(item_name \<times> ItemData) list"
  lookup_id_to_name :: "(int \<times> item_name) list"
  race_to_item_type :: "(SC2Race \<times> item_type list) list"
  upgrade_bundles :: "(item_name \<times> item_name list) list"
  bundle_all_upgrades :: "item_name list"
  WEAPON_ARMOR_UPGRADE_MAX_LEVEL :: int
  ZergItemType_Level :: item_type
  ProtossItemType_War_Council :: item_type
  ProtossItemType_War_Council_2 :: item_type
  percent_of_missions :: "int \<Rightarrow> int \<Rightarrow> int"

section \<open>Python lists, shifts and the accumulators\<close>

text \<open>
  A value of type \<open>'a option\<close> is \<open>None\<close> where the Python code raises (\<^verbatim>\<open>KeyError\<close> for a
  missing key, \<^verbatim>\<open>IndexError\<close> for an index out of range, \<^verbatim>\<open>ValueError\<close> for a negative
  shift count). An index \<open>i\<close> into a list of length \<open>n\<close> is valid from \<open>-n\<close> to \<open>n - 1\<close>; a
  negative one counts from the end.
\<close>

definition norm_index :: "nat \<Rightarrow> int \<Rightarrow> nat option" where
  "norm_index n i =
     (if 0 \<le> i \<and> i < int n then Some (nat i)
      else if - int n \<le> i \<and> i < 0 then Some (nat (int n + i))
      else None)"

definition py_lshift :: "int \<Rightarrow> int \<Rightarrow> int option" where
  "py_lshift a n = (if n < 0 then None else Some (push_bit (nat n) a))"

definition py_rshift :: "int \<Rightarrow> int \<Rightarrow> int option" where
  "py_rshift a n = (if n < 0 then None else Some (drop_bit (nat n) a))"

text \<open>
  The accumulators: a dictionary from a race to a list of integers. \<open>acc_get\<close> is
  \<^verbatim>\<open>accumulators[race][index]\<close>; \<open>acc_modify\<close> is an augmented assignment
  \<^verbatim>\<open>accumulators[race][index] op= v\<close>, with \<open>f\<close> the effect of \<^verbatim>\<open>op= v\<close> on the old value.
  Each race has a list of its own, so no two entries alias.
\<close>

type_synonym accumulators = "SC2Race \<rightharpoonup> int list"

definition acc_get :: "accumulators \<Rightarrow> SC2Race \<Rightarrow> int \<Rightarrow> int option" where
  "acc_get acc r idx =
     do { xs \<leftarrow> acc r; i \<leftarrow> norm_index (length xs) idx; Some (xs ! i) }"

definition acc_modify :: "accumulators \<Rightarrow> SC2Race \<Rightarrow> int \<Rightarrow> (int \<Rightarrow> int) \<Rightarrow> accumulators option" where
  "acc_modify acc r idx f =
     do { xs \<leftarrow> acc r; i \<leftarrow> norm_index (length xs) idx; Some (acc(r \<mapsto> xs[i := f (xs ! i)])) }"

text \<open>
  \<^verbatim>\<open>for n in numbers: accumulators[race][flaggroup] += v << n\<close>, the loop over the member
  numbers of a bundle.
\<close>

fun add_shifted :: "accumulators \<Rightarrow> SC2Race \<Rightarrow> int \<Rightarrow> int \<Rightarrow> int list \<Rightarrow> accumulators option" where
  "add_shifted acc r flaggroup v [] = Some acc"
| "add_shifted acc r flaggroup v (n # rest) =
     do {
       b \<leftarrow> py_lshift v n;
       acc' \<leftarrow> acc_modify acc r flaggroup (\<lambda>old. old + b);
       add_shifted acc' r flaggroup v rest
     }"

section \<open>The item accumulator\<close>

text \<open>
  \<^verbatim>\<open>CompatItemHolder\<close> and the two compatibility sets. They are Python sets, and sets
  here: the order of their elements in the source says nothing.
\<close>

record CompatItemHolder =
  name :: item_name
  holder_quantity :: int

definition API2_TO_API3_COMPAT_ITEMS :: "CompatItemHolder set" where
  "API2_TO_API3_COMPAT_ITEMS =
     {\<lparr>name = PHOTON_CANNON, holder_quantity = 1\<rparr>,
      \<lparr>name = OBSERVER, holder_quantity = 1\<rparr>,
      \<lparr>name = WARP_HARMONIZATION, holder_quantity = 1\<rparr>,
      \<lparr>name = PROGRESSIVE_PROTOSS_GROUND_WEAPON, holder_quantity = 3\<rparr>,
      \<lparr>name = PROGRESSIVE_PROTOSS_GROUND_ARMOR, holder_quantity = 3\<rparr>,
      \<lparr>name = PROGRESSIVE_PROTOSS_SHIELDS, holder_quantity = 3\<rparr>,
      \<lparr>name = PROGRESSIVE_PROTOSS_AIR_WEAPON, holder_quantity = 3\<rparr>,
      \<lparr>name = PROGRESSIVE_PROTOSS_AIR_ARMOR, holder_quantity = 3\<rparr>,
      \<lparr>name = PROGRESSIVE_PROTOSS_WEAPON_ARMOR_UPGRADE, holder_quantity = 3\<rparr>}"

definition API3_TO_API4_COMPAT_ITEMS :: "item_tables \<Rightarrow> CompatItemHolder set" where
  "API3_TO_API4_COMPAT_ITEMS T =
     set (map (\<lambda>(item_name, item_data). \<lparr>name = item_name, holder_quantity = 1\<rparr>)
            (filter
               (\<lambda>(item_name, item_data).
                  (type item_data = ProtossItemType_War_Council T
                   \<or> type item_data = ProtossItemType_War_Council_2 T)
                  \<and> item_name \<noteq> DESTROYER_REFORGED_BLOODSHARD_CORE
                  \<and> item_name \<noteq> OBSERVER_INDUCE_SCOPOPHOBIA)
               (full_item_list T)))"

text \<open>
  A \<^verbatim>\<open>for\<close> loop over a Python set meets every element once, in an order that the
  hashes of the running process decide. The two orders that a run of \<^verbatim>\<open>calculate_items\<close>
  takes are an argument of the model: any pair of lists that enumerate the two sets.
\<close>

record iteration_orders =
  api2_to_api3_order :: "CompatItemHolder list"
  api3_to_api4_order :: "CompatItemHolder list"

definition iterates :: "'a list \<Rightarrow> 'a set \<Rightarrow> bool" where
  "iterates xs S \<longleftrightarrow> distinct xs \<and> set xs = S"

definition valid_orders :: "item_tables \<Rightarrow> iteration_orders \<Rightarrow> bool" where
  "valid_orders T ord \<longleftrightarrow>
     iterates (api2_to_api3_order ord) API2_TO_API3_COMPAT_ITEMS
     \<and> iterates (api3_to_api4_order ord) (API3_TO_API4_COMPAT_ITEMS T)"

definition compat_item_to_network_items ::
  "item_tables \<Rightarrow> CompatItemHolder \<Rightarrow> NetworkItem list option" where
  "compat_item_to_network_items T compat_item =
     do {
       item_data \<leftarrow> map_of (full_item_list T) (name compat_item);
       Some (replicate (nat (holder_quantity compat_item))
               \<lparr>item = code item_data, location = 0, player = 0, flags = 0\<rparr>)
     }"

text \<open>
  \<^verbatim>\<open>for compat_item in COMPAT_ITEMS: items.extend(compat_item_to_network_items(compat_item))\<close>,
  over the elements of the set in the order of the iteration.
\<close>

fun extend_compat ::
  "item_tables \<Rightarrow> NetworkItem list \<Rightarrow> CompatItemHolder list \<Rightarrow> NetworkItem list option" where
  "extend_compat T items [] = Some items"
| "extend_compat T items (compat_item # rest) =
     do {
       new \<leftarrow> compat_item_to_network_items T compat_item;
       extend_compat T (items @ new) rest
     }"

text \<open>The list \<^verbatim>\<open>items\<close> as the main loop of \<^verbatim>\<open>calculate_items\<close> finds it.\<close>

definition extended_items ::
  "item_tables \<Rightarrow> iteration_orders \<Rightarrow> ('r, 'x) SC2Context_scheme \<Rightarrow> NetworkItem list option" where
  "extended_items T ord ctx =
     do {
       items \<leftarrow> (if slot_data_version ctx < 3
                  then extend_compat T (items_received ctx) (api2_to_api3_order ord)
                  else Some (items_received ctx));
       (if slot_data_version ctx < 4
        then extend_compat T items (api3_to_api4_order ord)
        else Some items)
     }"

text \<open>
  \<^verbatim>\<open>get_bundle_upgrade_member_numbers\<close>: the numbers of the members of a bundle, without
  the shields for the two Protoss bundles whose shields are handled apart.
\<close>

fun item_numbers :: "item_tables \<Rightarrow> item_name list \<Rightarrow> int list option" where
  "item_numbers T [] = Some []"
| "item_numbers T (item_name # rest) =
     do {
       item_data \<leftarrow> map_of (full_item_list T) item_name;
       numbers \<leftarrow> item_numbers T rest;
       Some (number item_data # numbers)
     }"

definition get_bundle_upgrade_member_numbers :: "item_tables \<Rightarrow> item_name \<Rightarrow> int list option" where
  "get_bundle_upgrade_member_numbers T bundled_item =
     do {
       upgrade_elements \<leftarrow> map_of (upgrade_bundles T) bundled_item;
       item_numbers T
         (if bundled_item = PROGRESSIVE_PROTOSS_GROUND_UPGRADE
             \<or> bundled_item = PROGRESSIVE_PROTOSS_AIR_UPGRADE
          then filter (\<lambda>item_name. item_name \<noteq> PROGRESSIVE_PROTOSS_SHIELDS) upgrade_elements
          else upgrade_elements)
     }"

text \<open>The variables that the main loop of \<^verbatim>\<open>calculate_items\<close> updates.\<close>

record calc_state =
  accumulators :: accumulators
  orbital_command_count :: int
  shields_from_ground_upgrade :: int
  shields_from_air_upgrade :: int

text \<open>The part of the loop body for an item that exists several times.\<close>

definition count_bundle ::
  "item_tables \<Rightarrow> calc_state \<Rightarrow> item_name \<Rightarrow> ItemData \<Rightarrow> calc_state option" where
  "count_bundle T st item_name item_data =
     (if 0 \<le> number item_data then
        do {
          b \<leftarrow> py_lshift 1 (number item_data);
          acc \<leftarrow> acc_modify (accumulators st) (race item_data) (flag_word (type item_data))
                   (\<lambda>old. old + b);
          Some (st\<lparr>accumulators := acc\<rparr>)
        }
      else
        do {
          let st1 = st\<lparr>shields_from_ground_upgrade :=
                          (if item_name = PROGRESSIVE_PROTOSS_GROUND_UPGRADE
                           then shields_from_ground_upgrade st + 1
                           else shields_from_ground_upgrade st),
                        shields_from_air_upgrade :=
                          (if item_name = PROGRESSIVE_PROTOSS_AIR_UPGRADE
                           then shields_from_air_upgrade st + 1
                           else shields_from_air_upgrade st)\<rparr>;
          numbers \<leftarrow> get_bundle_upgrade_member_numbers T item_name;
          acc \<leftarrow> add_shifted (accumulators st1) (race item_data) (flag_word (type item_data)) 1
                   numbers;
          Some (st1\<lparr>accumulators := acc\<rparr>)
        })"

text \<open>The undoing of the bio-steel change for a game generated before version 3.\<close>

definition bio_steel_compat ::
  "('r, 'x) SC2Context_scheme \<Rightarrow> calc_state \<Rightarrow> item_name \<Rightarrow> ItemData \<Rightarrow> calc_state option" where
  "bio_steel_compat ctx st item_name item_data =
     (if slot_data_version ctx < 3 \<and> item_name = PROGRESSIVE_REGENERATIVE_BIO_STEEL then
        do {
          word \<leftarrow> acc_get (accumulators st) (race item_data) (flag_word (type item_data));
          shifted \<leftarrow> py_rshift word (number item_data);
          (if shifted mod 4 = 2 then
             do {
               b \<leftarrow> py_lshift 1 (number item_data);
               acc \<leftarrow> acc_modify (accumulators st) (race item_data) (flag_word (type item_data))
                        (\<lambda>old. old + b);
               Some (st\<lparr>accumulators := acc\<rparr>)
             }
           else Some st)
        }
      else Some st)"

text \<open>The last branch of the loop body: sums, and the count of the deprecated item.\<close>

definition sum_item ::
  "('r, 'x) SC2Context_scheme \<Rightarrow> calc_state \<Rightarrow> item_name \<Rightarrow> ItemData \<Rightarrow> calc_state option" where
  "sum_item ctx st item_name item_data =
     (if item_name = PROGRESSIVE_ORBITAL_COMMAND
      then Some (st\<lparr>orbital_command_count := orbital_command_count st + 1\<rparr>)
      else
        do {
          acc \<leftarrow> acc_modify (accumulators st) (race item_data) (flag_word (type item_data))
                   (\<lambda>old. old +
                      (if item_name = STARTING_MINERALS then minerals_per_item ctx
                       else if item_name = STARTING_VESPENE then vespene_per_item ctx
                       else if item_name = STARTING_SUPPLY then starting_supply_per_item ctx
                       else number item_data));
          Some (st\<lparr>accumulators := acc\<rparr>)
        })"

text \<open>The body of the loop \<^verbatim>\<open>for network_item in items\<close>.\<close>

definition process_item ::
  "item_tables \<Rightarrow> ('r, 'x) SC2Context_scheme \<Rightarrow> calc_state \<Rightarrow> NetworkItem \<Rightarrow> calc_state option" where
  "process_item T ctx st network_item =
     do {
       item_name \<leftarrow> map_of (lookup_id_to_name T) (item network_item);
       item_data \<leftarrow> map_of (full_item_list T) item_name;
       (if flag_word (type item_data) < 0 then Some st
        else if quantity item_data = 1 then
          do {
            b \<leftarrow> py_lshift 1 (number item_data);
            acc \<leftarrow> acc_modify (accumulators st) (race item_data) (flag_word (type item_data))
                     (\<lambda>old. old OR b);
            Some (st\<lparr>accumulators := acc\<rparr>)
          }
        else if 1 < quantity item_data then
          do {
            st1 \<leftarrow> count_bundle T st item_name item_data;
            bio_steel_compat ctx st1 item_name item_data
          }
        else sum_item ctx st item_name item_data)
     }"

fun fold_items ::
  "item_tables \<Rightarrow> ('r, 'x) SC2Context_scheme \<Rightarrow> calc_state \<Rightarrow> NetworkItem list
     \<Rightarrow> calc_state option" where
  "fold_items T ctx st [] = Some st"
| "fold_items T ctx st (network_item # rest) =
     do { st' \<leftarrow> process_item T ctx st network_item; fold_items T ctx st' rest }"

text \<open>
  The shields of the two Protoss bundles, after the loop:
  \<^verbatim>\<open>for _ in range(0, shield_upgrade_level): accumulators[...][...] += 1 << number\<close>.
\<close>

fun add_levels :: "nat \<Rightarrow> accumulators \<Rightarrow> ItemData \<Rightarrow> accumulators option" where
  "add_levels 0 acc shield_upgrade_item = Some acc"
| "add_levels (Suc k) acc shield_upgrade_item =
     do {
       b \<leftarrow> py_lshift 1 (number shield_upgrade_item);
       acc' \<leftarrow> acc_modify acc (race shield_upgrade_item)
                 (flag_word (type shield_upgrade_item)) (\<lambda>old. old + b);
       add_levels k acc' shield_upgrade_item
     }"

definition fix_shields :: "item_tables \<Rightarrow> calc_state \<Rightarrow> accumulators option" where
  "fix_shields T st =
     (if 0 < shields_from_ground_upgrade st \<or> 0 < shields_from_air_upgrade st then
        do {
          let shield_upgrade_level =
                max (shields_from_ground_upgrade st) (shields_from_air_upgrade st);
          shield_upgrade_item \<leftarrow> map_of (full_item_list T) PROGRESSIVE_PROTOSS_SHIELDS;
          add_levels (nat shield_upgrade_level) (accumulators st) shield_upgrade_item
        }
      else Some (accumulators st))"

text \<open>
  The handling of the deprecated Orbital Command item, after the loop. The test
  \<^verbatim>\<open>sum(item_id in replacement_item_ids for item_id in items) > 0\<close> runs over the list
  \<^verbatim>\<open>items\<close>, whose elements are \<^verbatim>\<open>NetworkItem\<close> tuples, and looks each of them up in a
  list of integer item codes with Python's \<^verbatim>\<open>in\<close>, that is with \<^verbatim>\<open>==\<close>. The two kinds
  of Python values are kept apart by a datatype; a tuple is never equal to an integer.
\<close>

datatype py_value = IntValue int | NetworkItemValue NetworkItem

definition replacements_found :: "int list \<Rightarrow> NetworkItem list \<Rightarrow> nat" where
  "replacements_found replacement_item_ids items =
     length (filter (\<lambda>item_id. NetworkItemValue item_id \<in> set (map IntValue replacement_item_ids))
               items)"

fun item_codes :: "item_tables \<Rightarrow> item_name list \<Rightarrow> int list option" where
  "item_codes T [] = Some []"
| "item_codes T (item_name # rest) =
     do {
       item_data \<leftarrow> map_of (full_item_list T) item_name;
       codes \<leftarrow> item_codes T rest;
       Some (code item_data # codes)
     }"

definition orbital_command_replacement_items :: "item_name list" where
  "orbital_command_replacement_items =
     [COMMAND_CENTER_SCANNER_SWEEP, COMMAND_CENTER_MULE, COMMAND_CENTER_EXTRA_SUPPLIES,
      PLANETARY_FORTRESS_ORBITAL_MODULE]"

definition skip_warning :: string where
  "skip_warning = ''Both old Orbital Command and its replacements are present in the world. Skipping compatibility handling.''"

text \<open>
  The result is the list of the warnings logged and the accumulators. \<open>count\<close> is
  \<^verbatim>\<open>orbital_command_count\<close> as the loop left it.
\<close>

definition orbital_command_compat ::
  "item_tables \<Rightarrow> NetworkItem list \<Rightarrow> int \<Rightarrow> accumulators \<Rightarrow> (string list \<times> accumulators) option" where
  "orbital_command_compat T items count acc =
     (if 0 < count then
        do {
          replacement_item_ids \<leftarrow> item_codes T orbital_command_replacement_items;
          (if 0 < replacements_found replacement_item_ids items
           then Some ([skip_warning], acc)
           else
             do {
               scanner_sweep_data \<leftarrow> map_of (full_item_list T) COMMAND_CENTER_SCANNER_SWEEP;
               mule_data \<leftarrow> map_of (full_item_list T) COMMAND_CENTER_MULE;
               b1 \<leftarrow> py_lshift 1 (number scanner_sweep_data);
               acc1 \<leftarrow> acc_modify acc (race scanner_sweep_data)
                         (flag_word (type scanner_sweep_data)) (\<lambda>old. old + b1);
               b2 \<leftarrow> py_lshift 1 (number mule_data);
               acc2 \<leftarrow> acc_modify acc1 (race mule_data) (flag_word (type mule_data))
                         (\<lambda>old. old + b2);
               (if 2 \<le> count then
                  do {
                    planetary_orbital_module_data \<leftarrow>
                      map_of (full_item_list T) PLANETARY_FORTRESS_ORBITAL_MODULE;
                    b3 \<leftarrow> py_lshift 1 (number planetary_orbital_module_data);
                    acc3 \<leftarrow> acc_modify acc2 (race planetary_orbital_module_data)
                              (flag_word (type planetary_orbital_module_data))
                              (\<lambda>old. old + b3);
                    Some ([], acc3)
                  }
                else Some ([], acc2))
             })
        }
      else Some ([], acc))"

text \<open>
  The upgrades from completed missions. \<^verbatim>\<open>race_to_item_type[race]["Upgrade"]\<close> is the
  member of the race's class with that name.
\<close>

definition enum_member :: "item_type list \<Rightarrow> string \<Rightarrow> item_type option" where
  "enum_member cls member = find (\<lambda>element. member_name element = member) cls"

fun global_upgrades_loop ::
  "item_tables \<Rightarrow> accumulators \<Rightarrow> int \<Rightarrow> item_name list \<Rightarrow> accumulators option" where
  "global_upgrades_loop T acc upgrade_count [] = Some acc"
| "global_upgrades_loop T acc upgrade_count (global_upgrade # rest) =
     do {
       item_data \<leftarrow> map_of (full_item_list T) global_upgrade;
       cls \<leftarrow> map_of (race_to_item_type T) (race item_data);
       upgrade \<leftarrow> enum_member cls ''Upgrade'';
       numbers \<leftarrow> get_bundle_upgrade_member_numbers T global_upgrade;
       acc' \<leftarrow> add_shifted acc (race item_data) (flag_word upgrade) upgrade_count numbers;
       global_upgrades_loop T acc' upgrade_count rest
     }"

definition mission_upgrades ::
  "item_tables \<Rightarrow> location_consts \<Rightarrow> ('r, 'x) SC2Context_scheme \<Rightarrow> accumulators
     \<Rightarrow> accumulators option" where
  "mission_upgrades T K ctx acc =
     (if 0 < generic_upgrade_missions ctx then
        (let total_missions =
               int (sum_list (map length
                      (concat (map missions (concat (map layouts (custom_mission_order ctx)))))));
             num_missions = percent_of_missions T (generic_upgrade_missions ctx) total_missions;
             completed =
               int (length (filter (is_mission_completed K ctx)
                              (map fst (mission_id_to_location_ids ctx))));
             upgrade_count =
               (if 0 < num_missions
                then min (completed div num_missions) (WEAPON_ARMOR_UPGRADE_MAX_LEVEL T)
                else WEAPON_ARMOR_UPGRADE_MAX_LEVEL T)
         in global_upgrades_loop T acc upgrade_count (bundle_all_upgrades T))
      else Some acc)"

text \<open>
  One list of zeros per race, with one entry per member of the race's class whose
  \<^verbatim>\<open>flag_word\<close> is not negative.
\<close>

definition initial_calc_state :: "item_tables \<Rightarrow> calc_state" where
  "initial_calc_state T =
     \<lparr>accumulators =
        map_of (map (\<lambda>(r, item_type_enum_class).
                       (r, map (\<lambda>element. 0)
                             (filter (\<lambda>element. 0 \<le> flag_word element) item_type_enum_class)))
                  (race_to_item_type T)),
      orbital_command_count = 0,
      shields_from_ground_upgrade = 0,
      shields_from_air_upgrade = 0\<rparr>"

text \<open>
  \<^verbatim>\<open>calculate_items\<close>: the accumulators it returns, with the warnings it logs on the way.
  \<open>ord\<close> gives the orders in which this run iterates the two compatibility sets.
\<close>

definition calculate_items ::
  "item_tables \<Rightarrow> iteration_orders \<Rightarrow> location_consts \<Rightarrow> ('r, 'x) SC2Context_scheme
     \<Rightarrow> (string list \<times> accumulators) option" where
  "calculate_items T ord K ctx =
     do {
       items \<leftarrow> extended_items T ord ctx;
       st \<leftarrow> fold_items T ctx (initial_calc_state T) items;
       acc1 \<leftarrow> fix_shields T st;
       (warnings, acc2) \<leftarrow> orbital_command_compat T items (orbital_command_count st) acc1;
       acc3 \<leftarrow> mission_upgrades T K ctx acc2;
       Some (warnings, acc3)
     }"

section \<open>The level of Kerrigan\<close>

definition get_kerrigan_level ::
  "item_tables \<Rightarrow> ('r, 'x) SC2Context_scheme \<Rightarrow> accumulators \<Rightarrow> int \<Rightarrow> int option" where
  "get_kerrigan_level T ctx items missions_beaten =
     do {
       item_value \<leftarrow> acc_get items ZERG (flag_word (ZergItemType_Level T));
       let mission_value = missions_beaten * kerrigan_levels_per_mission_completed ctx;
       let mission_value =
             (if kerrigan_levels_per_mission_completed_cap ctx \<noteq> - 1
              then min mission_value (kerrigan_levels_per_mission_completed_cap ctx)
              else mission_value);
       let total_value = item_value + mission_value;
       Some (if kerrigan_total_level_cap ctx \<noteq> - 1
             then min total_value (kerrigan_total_level_cap ctx)
             else total_value)
     }"

text \<open>
  \<^verbatim>\<open>ArchipelagoBot.missions_beaten_count\<close>: the number of checked locations that are the
  objective 0 of a mission.
\<close>

definition missions_beaten_count :: "('r, 'x) SC2Context_scheme \<Rightarrow> int" where
  "missions_beaten_count ctx =
     int (card (Set.filter (\<lambda>loc. loc mod VICTORY_MODULO = 0) (checked_locations ctx)))"

text \<open>
  The blended level as the specification words it: the first cap applies to the sum of
  the item value and the mission value, the second cap to the result; a cap of \<open>-1\<close> is no
  cap. It is compared with \<^const>\<open>get_kerrigan_level\<close> below.
\<close>

definition capped :: "int \<Rightarrow> int \<Rightarrow> int" where
  "capped cap v = (if cap = - 1 then v else min v cap)"

definition blended_level_spec :: "int \<Rightarrow> int \<Rightarrow> int \<Rightarrow> int \<Rightarrow> int \<Rightarrow> int" where
  "blended_level_spec item_value missions_completed per_mission_rate optional_cap overall_cap =
     capped overall_cap (capped optional_cap (item_value + missions_completed * per_mission_rate))"

section \<open>Example tables\<close>

text \<open>
  A small instance of the tables, used where a statement is evaluated. The Protoss
  upgrades share one accumulator, two bits each: ground weapon at bit 0, ground armor at
  bit 2, shields at bit 4, air weapon at bit 6, air armor at bit 8. The Terran command
  center upgrades are single bits of one accumulator; the deprecated Orbital Command has
  quantity 0. The examples set \<^verbatim>\<open>generic_upgrade_missions\<close> to 0, so that
  \<open>percent_of_missions\<close> is never applied; it is given the value of the floating point
  expression at the percentages 0 and 100, where that value is exact for any number of
  missions below \<open>2 ^ 53\<close>, and stands for nothing at another percentage.
\<close>

definition item_data_of :: "int \<Rightarrow> string \<Rightarrow> int \<Rightarrow> int \<Rightarrow> SC2Race \<Rightarrow> int \<Rightarrow> ItemData" where
  "item_data_of c type_name word n r q =
     \<lparr>code = c, type = \<lparr>member_name = type_name, flag_word = word\<rparr>, number = n, race = r,
      quantity = q\<rparr>"

definition example_item_list :: "(item_name \<times> ItemData) list" where
  "example_item_list =
     [(COMMAND_CENTER_SCANNER_SWEEP, item_data_of 110 ''Building'' 0 0 TERRAN 1),
      (COMMAND_CENTER_MULE, item_data_of 111 ''Building'' 0 1 TERRAN 1),
      (COMMAND_CENTER_EXTRA_SUPPLIES, item_data_of 112 ''Building'' 0 2 TERRAN 1),
      (PLANETARY_FORTRESS_ORBITAL_MODULE, item_data_of 113 ''Building'' 0 3 TERRAN 1),
      (PROGRESSIVE_REGENERATIVE_BIO_STEEL, item_data_of 100 ''Progressive'' 1 0 TERRAN 3),
      (PROGRESSIVE_ORBITAL_COMMAND, item_data_of 101 ''Progressive'' 1 4 TERRAN 0),
      (OTHER_ITEM ''Kerrigan Level'', item_data_of 500 ''Level'' 1 1 ZERG 0),
      (PHOTON_CANNON, item_data_of 700 ''Unit'' 0 0 PROTOSS 1),
      (OBSERVER, item_data_of 701 ''Unit'' 0 1 PROTOSS 1),
      (WARP_HARMONIZATION, item_data_of 702 ''Unit'' 0 2 PROTOSS 1),
      (PROGRESSIVE_PROTOSS_GROUND_WEAPON, item_data_of 710 ''Upgrade'' 1 0 PROTOSS 3),
      (PROGRESSIVE_PROTOSS_GROUND_ARMOR, item_data_of 711 ''Upgrade'' 1 2 PROTOSS 3),
      (PROGRESSIVE_PROTOSS_SHIELDS, item_data_of 712 ''Upgrade'' 1 4 PROTOSS 3),
      (PROGRESSIVE_PROTOSS_AIR_WEAPON, item_data_of 713 ''Upgrade'' 1 6 PROTOSS 3),
      (PROGRESSIVE_PROTOSS_AIR_ARMOR, item_data_of 714 ''Upgrade'' 1 8 PROTOSS 3),
      (PROGRESSIVE_PROTOSS_WEAPON_ARMOR_UPGRADE, item_data_of 715 ''Upgrade'' 1 (- 1) PROTOSS 3),
      (PROGRESSIVE_PROTOSS_GROUND_UPGRADE, item_data_of 716 ''Upgrade'' 1 (- 1) PROTOSS 3),
      (PROGRESSIVE_PROTOSS_AIR_UPGRADE, item_data_of 717 ''Upgrade'' 1 (- 1) PROTOSS 3),
      (OTHER_ITEM ''Zealot War Council'', item_data_of 720 ''War_Council'' 2 0 PROTOSS 1),
      (DESTROYER_REFORGED_BLOODSHARD_CORE, item_data_of 721 ''War_Council'' 2 1 PROTOSS 1),
      (STARTING_MINERALS, item_data_of 800 ''Minerals'' 0 15 ANY 0)]"

definition example_tables :: item_tables where
  "example_tables =
     \<lparr>full_item_list = example_item_list,
      lookup_id_to_name = map (\<lambda>(item_name, item_data). (code item_data, item_name)) example_item_list,
      race_to_item_type =
        [(ANY, [\<lparr>member_name = ''Minerals'', flag_word = 0\<rparr>]),
         (TERRAN, [\<lparr>member_name = ''Building'', flag_word = 0\<rparr>,
                   \<lparr>member_name = ''Progressive'', flag_word = 1\<rparr>,
                   \<lparr>member_name = ''Nothing'', flag_word = - 1\<rparr>]),
         (ZERG, [\<lparr>member_name = ''Unit'', flag_word = 0\<rparr>,
                 \<lparr>member_name = ''Level'', flag_word = 1\<rparr>]),
         (PROTOSS, [\<lparr>member_name = ''Unit'', flag_word = 0\<rparr>,
                    \<lparr>member_name = ''Upgrade'', flag_word = 1\<rparr>,
                    \<lparr>member_name = ''War_Council'', flag_word = 2\<rparr>,
                    \<lparr>member_name = ''War_Council_2'', flag_word = 3\<rparr>])],
      upgrade_bundles =
        [(PROGRESSIVE_PROTOSS_GROUND_UPGRADE,
          [PROGRESSIVE_PROTOSS_GROUND_WEAPON, PROGRESSIVE_PROTOSS_GROUND_ARMOR,
           PROGRESSIVE_PROTOSS_SHIELDS]),
         (PROGRESSIVE_PROTOSS_AIR_UPGRADE,
          [PROGRESSIVE_PROTOSS_AIR_WEAPON, PROGRESSIVE_PROTOSS_AIR_ARMOR,
           PROGRESSIVE_PROTOSS_SHIELDS]),
         (PROGRESSIVE_PROTOSS_WEAPON_ARMOR_UPGRADE,
          [PROGRESSIVE_PROTOSS_GROUND_WEAPON, PROGRESSIVE_PROTOSS_GROUND_ARMOR,
           PROGRESSIVE_PROTOSS_SHIELDS, PROGRESSIVE_PROTOSS_AIR_WEAPON,
           PROGRESSIVE_PROTOSS_AIR_ARMOR])],
      bundle_all_upgrades = [PROGRESSIVE_PROTOSS_WEAPON_ARMOR_UPGRADE],
      WEAPON_ARMOR_UPGRADE_MAX_LEVEL = 3,
      ZergItemType_Level = \<lparr>member_name = ''Level'', flag_word = 1\<rparr>,
      ProtossItemType_War_Council = \<lparr>member_name = ''War_Council'', flag_word = 2\<rparr>,
      ProtossItemType_War_Council_2 = \<lparr>member_name = ''War_Council_2'', flag_word = 3\<rparr>,
      percent_of_missions = (\<lambda>g total. if g = 100 then total else 0)\<rparr>"

text \<open>
  One pair of orders for the example tables. The second set of the example has a single
  element, so that its order is the only one.
\<close>

definition example_orders :: iteration_orders where
  "example_orders =
     \<lparr>api2_to_api3_order =
        [\<lparr>name = PHOTON_CANNON, holder_quantity = 1\<rparr>,
         \<lparr>name = OBSERVER, holder_quantity = 1\<rparr>,
         \<lparr>name = WARP_HARMONIZATION, holder_quantity = 1\<rparr>,
         \<lparr>name = PROGRESSIVE_PROTOSS_GROUND_WEAPON, holder_quantity = 3\<rparr>,
         \<lparr>name = PROGRESSIVE_PROTOSS_GROUND_ARMOR, holder_quantity = 3\<rparr>,
         \<lparr>name = PROGRESSIVE_PROTOSS_SHIELDS, holder_quantity = 3\<rparr>,
         \<lparr>name = PROGRESSIVE_PROTOSS_AIR_WEAPON, holder_quantity = 3\<rparr>,
         \<lparr>name = PROGRESSIVE_PROTOSS_AIR_ARMOR, holder_quantity = 3\<rparr>,
         \<lparr>name = PROGRESSIVE_PROTOSS_WEAPON_ARMOR_UPGRADE, holder_quantity = 3\<rparr>],
      api3_to_api4_order =
        [\<lparr>name = OTHER_ITEM ''Zealot War Council'', holder_quantity = 1\<rparr>]\<rparr>"

text \<open>A received item with the given code, and the example context with other items.\<close>

definition received_item :: "int \<Rightarrow> NetworkItem" where
  "received_item c = \<lparr>item = c, location = 0, player = 1, flags = 0\<rparr>"

definition example_ctx_with :: "int \<Rightarrow> int list \<Rightarrow> rule_ref SC2Context" where
  "example_ctx_with version codes =
     example_ctx\<lparr>items_received := map received_item codes, slot_data_version := version\<rparr>"

section \<open>Notions used to state the properties of the item accumulator\<close>

text \<open>The name of a received item, as the loop looks it up.\<close>

definition item_name_of :: "item_tables \<Rightarrow> NetworkItem \<Rightarrow> item_name option" where
  "item_name_of T network_item = map_of (lookup_id_to_name T) (item network_item)"

text \<open>
  An item that the loop treats as a bundle: it has an accumulator, exists several times
  and has a negative number.
\<close>

definition is_bundle_item :: "item_tables \<Rightarrow> item_name \<Rightarrow> bool" where
  "is_bundle_item T item_name =
     (case map_of (full_item_list T) item_name of
        None \<Rightarrow> False
      | Some item_data \<Rightarrow>
          0 \<le> flag_word (type item_data) \<and> 1 < quantity item_data \<and> number item_data < 0)"

definition copies_of :: "item_tables \<Rightarrow> item_name \<Rightarrow> NetworkItem list \<Rightarrow> nat" where
  "copies_of T item_name items =
     length (filter (\<lambda>network_item. item_name_of T network_item = Some item_name) items)"

text \<open>The sum of \<^verbatim>\<open>1 << n\<close> over a list of numbers.\<close>

definition sum_of_bits :: "int list \<Rightarrow> int" where
  "sum_of_bits numbers = sum_list (map (\<lambda>n. 2 ^ nat n) numbers)"

text \<open>The implied items of a list of holders, one holder after the other.\<close>

fun compat_network_items :: "item_tables \<Rightarrow> CompatItemHolder list \<Rightarrow> NetworkItem list option" where
  "compat_network_items T [] = Some []"
| "compat_network_items T (compat_item # rest) =
     do {
       new \<leftarrow> compat_item_to_network_items T compat_item;
       more \<leftarrow> compat_network_items T rest;
       Some (new @ more)
     }"

section \<open>Properties of the location codec\<close>

lemma divmod_block:
  fixes m obj :: int
  assumes "0 \<le> obj" and "obj \<le> 99"
  shows "(m * 100 + obj) div 100 = m" and "(m * 100 + obj) mod 100 = obj"
  using assms by simp_all

lemma decode_encode:
  assumes sep: "regimes_separated K" and lo: "0 \<le> obj" and hi: "obj \<le> 99"
  shows "decode_location K (get_location_id K m obj) = (m, obj)"
proof (cases "m \<le> ALL_IN_id K")
  case True
  define W where "W = SC2WOL_LOC_ID_OFFSET K"
  have id: "get_location_id K m obj = W + (m * 100 + obj)"
    using True
    by (simp add: get_location_id_def get_location_offset_def VICTORY_MODULO_def W_def)
  have "W + (m * 100 + obj) < SC2HOTS_LOC_ID_OFFSET K"
    using sep True hi by (simp add: regimes_separated_def VICTORY_MODULO_def W_def)
  then have off: "decode_offset K (W + (m * 100 + obj)) = W"
    by (simp add: decode_offset_def W_def)
  show ?thesis
    unfolding decode_location_def id off VICTORY_MODULO_def
    using divmod_block [OF lo hi, of m] by simp
next
  case False
  define H where "H = SC2HOTS_LOC_ID_OFFSET K - ALL_IN_id K * 100"
  have id: "get_location_id K m obj = H + (m * 100 + obj)"
    using False
    by (simp add: get_location_id_def get_location_offset_def VICTORY_MODULO_def H_def)
  have "SC2HOTS_LOC_ID_OFFSET K \<le> H + (m * 100 + obj)"
    using False lo by (simp add: H_def)
  then have off: "decode_offset K (H + (m * 100 + obj)) = H"
    by (simp add: decode_offset_def VICTORY_MODULO_def H_def)
  show ?thesis
    unfolding decode_location_def id off VICTORY_MODULO_def
    using divmod_block [OF lo hi, of m] by simp
qed

text \<open>
  Claim C1. The codec is a bijection over the valid pairs: for every mission id \<open>m\<close> and
  every objective index \<open>obj\<close> in \<open>[0, 99]\<close>, decoding \<open>get_location_id m obj\<close> gives back
  \<open>(m, obj)\<close>, whichever of the two offsets the encoder chose (by the mission id) and the
  decoder chose (by the id value); every id the encoder can produce is encoded again to
  itself from its decoding; and for an early mission, \<open>encode 5 0\<close> is the early offset
  plus 500 while the early offset plus 507 decodes to \<open>(5, 7)\<close>. The constants come from
  modules outside the sources at hand: the statement holds for all values of them that
  keep the two regimes apart (\<^const>\<open>regimes_separated\<close>).
\<close>

theorem location_codec_bijection:
  assumes "regimes_separated K"
  shows "(\<forall>m obj. 0 \<le> obj \<and> obj \<le> 99 \<longrightarrow>
            decode_location K (get_location_id K m obj) = (m, obj))
       \<and> (\<forall>loc. (\<exists>m obj. 0 \<le> obj \<and> obj \<le> 99 \<and> loc = get_location_id K m obj) \<longrightarrow>
            get_location_id K (fst (decode_location K loc)) (snd (decode_location K loc)) = loc)
       \<and> (5 \<le> ALL_IN_id K \<longrightarrow>
            get_location_id K 5 0 = SC2WOL_LOC_ID_OFFSET K + 500
          \<and> decode_location K (SC2WOL_LOC_ID_OFFSET K + 507) = (5, 7))"
proof (intro conjI allI impI)
  fix m obj :: int
  assume "0 \<le> obj \<and> obj \<le> 99"
  then show "decode_location K (get_location_id K m obj) = (m, obj)"
    using assms by (simp add: decode_encode)
next
  fix loc :: int
  assume "\<exists>m obj. 0 \<le> obj \<and> obj \<le> 99 \<and> loc = get_location_id K m obj"
  then obtain m obj where r: "0 \<le> obj" "obj \<le> 99" and loc: "loc = get_location_id K m obj"
    by blast
  have "decode_location K loc = (m, obj)"
    using assms r by (simp add: loc decode_encode)
  then show "get_location_id K (fst (decode_location K loc)) (snd (decode_location K loc)) = loc"
    by (simp add: loc)
next
  assume "5 \<le> ALL_IN_id K"
  then show "get_location_id K 5 0 = SC2WOL_LOC_ID_OFFSET K + 500"
    by (simp add: get_location_id_def get_location_offset_def VICTORY_MODULO_def)
next
  assume a: "5 \<le> ALL_IN_id K"
  have "get_location_id K 5 7 = SC2WOL_LOC_ID_OFFSET K + 507"
    using a by (simp add: get_location_id_def get_location_offset_def VICTORY_MODULO_def)
  moreover have "decode_location K (get_location_id K 5 7) = (5, 7)"
    using assms by (simp add: decode_encode)
  ultimately show "decode_location K (SC2WOL_LOC_ID_OFFSET K + 507) = (5, 7)"
    by simp
qed

theorem location_codec_bijection_witness:
  "regimes_separated example_consts
   \<and> decode_location example_consts (get_location_id example_consts 29 99) = (29, 99)
   \<and> decode_location example_consts (get_location_id example_consts 30 0) = (30, 0)
   \<and> get_location_id example_consts (fst (decode_location example_consts 20000100))
        (snd (decode_location example_consts 20000100)) = 20000100
   \<and> get_location_id example_consts 5 0 = 1500
   \<and> decode_location example_consts 1507 = (5, 7)"
proof -
  have sep: "regimes_separated example_consts"
    by (simp add: regimes_separated_def example_consts_def VICTORY_MODULO_def)
  have enc: "get_location_id example_consts 30 0 = 20000100"
    by (simp add: get_location_id_def get_location_offset_def example_consts_def
        VICTORY_MODULO_def)
  have five: "(5::int) \<le> ALL_IN_id example_consts"
    by (simp add: example_consts_def)
  have wol: "SC2WOL_LOC_ID_OFFSET example_consts = 1000"
    by (simp add: example_consts_def)
  note bij = location_codec_bijection [OF sep]
  have a: "decode_location example_consts (get_location_id example_consts 29 99) = (29, 99)"
    using bij by simp
  have b: "decode_location example_consts (get_location_id example_consts 30 0) = (30, 0)"
    using bij by simp
  have c: "get_location_id example_consts (fst (decode_location example_consts 20000100))
        (snd (decode_location example_consts 20000100)) = 20000100"
    using bij enc by (metis order_refl zero_le_numeral)
  have d: "get_location_id example_consts 5 0 = 1500
      \<and> decode_location example_consts 1507 = (5, 7)"
    using bij five wol by simp
  show ?thesis using sep a b c d by simp
qed

text \<open>
  Claim C8, as stated: \<open>get_location_id\<close> fails with \<open>InvalidObjective\<close> when the
  objective index is outside \<open>[0, 99]\<close>. The function has no range check: at objective
  index 100 of mission 5 the specification's encoder fails, while the code returns an
  id, the one of objective 0 of mission 6.
\<close>

theorem get_location_id_range_counterexample:
  "encode_spec example_consts 5 100 = Inl InvalidObjective
   \<and> get_location_id example_consts 5 100 = 1600
   \<and> get_location_id example_consts 5 100 = get_location_id example_consts 6 0
   \<and> encode_spec example_consts 5 100 \<noteq> Inr (get_location_id example_consts 5 100)"
  by (simp add: encode_spec_def get_location_id_def get_location_offset_def
      example_consts_def VICTORY_MODULO_def)

text \<open>
  Claim C8, amended. \<open>get_location_id\<close> never fails and checks no range: for every
  mission id and every objective index, in \<open>[0, 99]\<close> or not, it returns
  \<open>offset(missionId) + missionId * 100 + objectiveIndex\<close>, where the offset is the early
  one up to the id of \<^verbatim>\<open>ALL_IN\<close> and the late one, less \<^verbatim>\<open>ALL_IN\<close>'s hundred block, after
  it; for an objective index in \<open>[0, 99]\<close> this is the id the specification's encoder
  returns.
\<close>

theorem get_location_id_total:
  "get_location_id K m obj =
     (if m \<le> ALL_IN_id K then SC2WOL_LOC_ID_OFFSET K
      else SC2HOTS_LOC_ID_OFFSET K - ALL_IN_id K * 100) + m * 100 + obj
   \<and> (0 \<le> obj \<and> obj \<le> 99 \<longrightarrow> encode_spec K m obj = Inr (get_location_id K m obj))"
  by (simp add: encode_spec_def get_location_id_def get_location_offset_def VICTORY_MODULO_def)

theorem get_location_id_total_witness:
  "get_location_id example_consts 30 99 = 20000199
   \<and> encode_spec example_consts 30 99 = Inr 20000199"
  using get_location_id_total [of example_consts 30 99]
  by (simp add: example_consts_def)

section \<open>Properties of the loops over the hierarchy\<close>

lemma missions_loop_keeps:
  "available_layouts (missions_loop ev st col) = available_layouts st"
  "available_campaigns (missions_loop ev st col) = available_campaigns st"
  by (induction col arbitrary: st) (auto split: prod.splits)


lemma columns_loop_keeps:
  "available_layouts (columns_loop ev st cols) = available_layouts st"
  "available_campaigns (columns_loop ev st cols) = available_campaigns st"
  by (induction cols arbitrary: st) (auto simp: missions_loop_keeps)


lemma layouts_loop_keeps:
  "available_campaigns (layouts_loop ev ci st k ls) = available_campaigns st"
  "j \<noteq> ci \<Longrightarrow> available_layouts (layouts_loop ev ci st k ls) j = available_layouts st j"
  by (induction ls arbitrary: st k) (auto split: prod.splits simp: columns_loop_keeps)

lemma layouts_loop_dom:
  "ci \<in> dom (available_layouts st) \<Longrightarrow>
     dom (available_layouts (layouts_loop ev ci st k ls)) = dom (available_layouts st)"
proof (induction ls arbitrary: st k)
  case Nil
  then show ?case by simp
next
  case (Cons layout rest)
  obtain ok rules where ev: "ev (layout_entry_rule layout) (accessible_rules st) = (ok, rules)"
    by (cases "ev (layout_entry_rule layout) (accessible_rules st)")
  show ?case
  proof (cases ok)
    case True
    let ?st' = "columns_loop ev
                  (st\<lparr>available_layouts :=
                        (available_layouts st)(ci \<mapsto>
                           (case available_layouts st ci of
                              None \<Rightarrow> [] | Some ls \<Rightarrow> ls) @ [k]),
                      accessible_rules := rules\<rparr>)
                  (missions layout)"
    have d: "dom (available_layouts ?st') = dom (available_layouts st)"
      using Cons.prems by (auto simp: columns_loop_keeps)
    then have "ci \<in> dom (available_layouts ?st')" using Cons.prems by simp
    from Cons.IH [OF this] show ?thesis using ev True d by simp
  next
    case False
    have "ci \<in> dom (available_layouts (st\<lparr>accessible_rules := rules\<rparr>))"
      using Cons.prems by simp
    from Cons.IH [OF this] show ?thesis using ev False by simp
  qed
qed



lemma campaigns_loop_ac_mono:
  "x \<in> set (available_campaigns st) \<Longrightarrow>
     x \<in> set (available_campaigns (campaigns_loop ev st k cs))"
proof (induction cs arbitrary: st k)
  case Nil
  then show ?case by simp
next
  case (Cons campaign rest)
  obtain ok rules where ev: "ev (campaign_entry_rule campaign) (accessible_rules st) = (ok, rules)"
    by (cases "ev (campaign_entry_rule campaign) (accessible_rules st)")
  show ?case
  proof (cases ok)
    case True
    let ?st' = "layouts_loop ev k
                  (st\<lparr>available_layouts := (available_layouts st)(k \<mapsto> []),
                      available_campaigns := available_campaigns st @ [k],
                      accessible_rules := rules\<rparr>)
                  0 (layouts campaign)"
    have "x \<in> set (available_campaigns ?st')"
      using Cons.prems by (simp add: layouts_loop_keeps)
    from Cons.IH [OF this] show ?thesis using ev True by simp
  next
    case False
    let ?st' = "st\<lparr>available_layouts := (available_layouts st)(k \<mapsto> []),
                   accessible_rules := rules\<rparr>"
    have "x \<in> set (available_campaigns ?st')" using Cons.prems by simp
    from Cons.IH [OF this] show ?thesis using ev False by simp
  qed
qed

lemma campaigns_loop_al_keep:
  "j < k \<Longrightarrow> available_layouts (campaigns_loop ev st k cs) j = available_layouts st j"
proof (induction cs arbitrary: st k)
  case Nil
  then show ?case by simp
next
  case (Cons campaign rest)
  obtain ok rules where ev: "ev (campaign_entry_rule campaign) (accessible_rules st) = (ok, rules)"
    by (cases "ev (campaign_entry_rule campaign) (accessible_rules st)")
  have lt: "j < Suc k" and ne: "j \<noteq> k" using Cons.prems by simp_all
  show ?case
  proof (cases ok)
    case True
    show ?thesis
      using ev True ne by (simp add: Cons.IH [OF lt] layouts_loop_keeps)
  next
    case False
    show ?thesis
      using ev False ne by (simp add: Cons.IH [OF lt])
  qed
qed

lemma campaigns_loop_dom:
  "dom (available_layouts (campaigns_loop ev st k cs)) =
     dom (available_layouts st) \<union> {k..<k + length cs}"
proof (induction cs arbitrary: st k)
  case Nil
  then show ?case by simp
next
  case (Cons campaign rest)
  obtain ok rules where ev: "ev (campaign_entry_rule campaign) (accessible_rules st) = (ok, rules)"
    by (cases "ev (campaign_entry_rule campaign) (accessible_rules st)")
  let ?st0 = "st\<lparr>available_layouts := (available_layouts st)(k \<mapsto> []),
                      available_campaigns := available_campaigns st @ [k],
                      accessible_rules := rules\<rparr>"
  let ?st1 = "layouts_loop ev k ?st0 0 (layouts campaign)"
  let ?st2 = "st\<lparr>available_layouts := (available_layouts st)(k \<mapsto> []),
                   accessible_rules := rules\<rparr>"
  let ?st' = "if ok then ?st1 else ?st2"
  have res: "campaigns_loop ev st k (campaign # rest) = campaigns_loop ev ?st' (Suc k) rest"
    using ev by simp
  have "k \<in> dom (available_layouts ?st0)" by simp
  then have "dom (available_layouts ?st1) = dom (available_layouts ?st0)"
    by (rule layouts_loop_dom)
  then have d1: "dom (available_layouts ?st1) = insert k (dom (available_layouts st))"
    by simp
  have d2: "dom (available_layouts ?st2) = insert k (dom (available_layouts st))"
    by simp
  have d: "dom (available_layouts ?st') = insert k (dom (available_layouts st))"
    using d1 d2 by (cases ok) simp_all
  have "dom (available_layouts (campaigns_loop ev ?st' (Suc k) rest)) =
      insert k (dom (available_layouts st)) \<union> {Suc k..<Suc k + length rest}"
    unfolding Cons.IH d ..
  also have "\<dots> = dom (available_layouts st) \<union> {k..<k + length (campaign # rest)}"
    by auto
  finally show ?case unfolding res .
qed

lemma campaigns_loop_locked:
  "i < length cs \<Longrightarrow> k + i \<notin> set (available_campaigns (campaigns_loop ev st k cs)) \<Longrightarrow>
     available_layouts (campaigns_loop ev st k cs) (k + i) = Some []"
proof (induction cs arbitrary: st k i)
  case Nil
  then show ?case by simp
next
  case (Cons campaign rest)
  obtain ok rules where ev: "ev (campaign_entry_rule campaign) (accessible_rules st) = (ok, rules)"
    by (cases "ev (campaign_entry_rule campaign) (accessible_rules st)")
  let ?st1 = "layouts_loop ev k
                  (st\<lparr>available_layouts := (available_layouts st)(k \<mapsto> []),
                      available_campaigns := available_campaigns st @ [k],
                      accessible_rules := rules\<rparr>)
                  0 (layouts campaign)"
  let ?st2 = "st\<lparr>available_layouts := (available_layouts st)(k \<mapsto> []),
                   accessible_rules := rules\<rparr>"
  let ?st' = "if ok then ?st1 else ?st2"
  have res: "campaigns_loop ev st k (campaign # rest) = campaigns_loop ev ?st' (Suc k) rest"
    using ev by simp
  show ?case
  proof (cases i)
    case 0
    have "\<not> ok"
    proof
      assume ok
      then have "k \<in> set (available_campaigns ?st')" by (simp add: layouts_loop_keeps)
      then have "k \<in> set (available_campaigns (campaigns_loop ev ?st' (Suc k) rest))"
        by (rule campaigns_loop_ac_mono)
      then show False using Cons.prems(2) 0 by (simp only: res) simp
    qed
    then have "available_layouts ?st' k = Some []" by simp
    moreover have "available_layouts (campaigns_loop ev ?st' (Suc k) rest) k =
        available_layouts ?st' k"
      by (rule campaigns_loop_al_keep) simp
    ultimately show ?thesis using 0 by (simp only: res) simp
  next
    case (Suc i')
    have a: "i' < length rest" using Cons.prems(1) Suc by simp
    have b: "Suc k + i' \<notin> set (available_campaigns (campaigns_loop ev ?st' (Suc k) rest))"
      using Cons.prems(2) Suc by (simp only: res) simp
    from Cons.IH [OF a b] show ?thesis using Suc by (simp only: res) simp
  qed
qed


lemma unfinished_test:
  fixes checked :: "int set"
  shows "card (checked \<inter> set locs) < card (set locs) \<longleftrightarrow> (\<exists>l\<in>set locs. l \<notin> checked)"
proof
  assume "card (checked \<inter> set locs) < card (set locs)"
  then have "checked \<inter> set locs \<noteq> set locs" by auto
  then show "\<exists>l\<in>set locs. l \<notin> checked" by auto
next
  assume "\<exists>l\<in>set locs. l \<notin> checked"
  then have "checked \<inter> set locs \<subset> set locs" by auto
  then show "card (checked \<inter> set locs) < card (set locs)"
    by (simp add: psubset_card_mono)
qed

lemma unfinished_loop_result:
  assumes "\<forall>m\<in>set ms. map_of (mission_id_to_location_ids ctx) m \<noteq> None"
  shows "\<exists>um'. unfinished_loop K ctx um ms = Some um' \<and>
           (\<forall>m. m \<in> um' \<longleftrightarrow>
              m \<in> um \<or>
              (m \<in> set ms \<and>
               (\<exists>locs. locations_for_mission_id K ctx m = Some locs \<and>
                  (\<exists>l\<in>set locs. l \<notin> checked_locations ctx))))"
  using assms
proof (induction ms arbitrary: um)
  case Nil
  then show ?case by simp
next
  case (Cons mission rest)
  from Cons.prems obtain objectives where
    key: "map_of (mission_id_to_location_ids ctx) mission = Some objectives"
    by auto
  define locs where "locs = map (get_location_id K mission) objectives"
  have lf: "locations_for_mission_id K ctx mission = Some locs"
    by (simp add: locations_for_mission_id_def key locs_def)
  define unfinished where "unfinished \<longleftrightarrow> (\<exists>l\<in>set locs. l \<notin> checked_locations ctx)"
  define um1 where "um1 = (if unfinished then insert mission um else um)"
  have step: "unfinished_loop K ctx um (mission # rest) = unfinished_loop K ctx um1 rest"
  proof (cases "set locs = {}")
    case True
    then have "\<not> unfinished" by (simp add: unfinished_def)
    then show ?thesis using True lf by (simp add: um1_def)
  next
    case False
    then show ?thesis
      using lf unfinished_test [of "checked_locations ctx" locs]
      by (simp add: um1_def unfinished_def Let_def del: set_empty set_empty2)
  qed
  have "\<forall>m\<in>set rest. map_of (mission_id_to_location_ids ctx) m \<noteq> None"
    using Cons.prems by simp
  from Cons.IH [OF this, of um1] obtain um' where
    res: "unfinished_loop K ctx um1 rest = Some um'" and
    iff: "\<forall>m. m \<in> um' \<longleftrightarrow>
              m \<in> um1 \<or>
              (m \<in> set rest \<and>
               (\<exists>locs. locations_for_mission_id K ctx m = Some locs \<and>
                  (\<exists>l\<in>set locs. l \<notin> checked_locations ctx)))"
    by blast
  have "\<forall>m. m \<in> um' \<longleftrightarrow>
              m \<in> um \<or>
              (m \<in> set (mission # rest) \<and>
               (\<exists>locs. locations_for_mission_id K ctx m = Some locs \<and>
                  (\<exists>l\<in>set locs. l \<notin> checked_locations ctx)))"
  proof
    fix m
    have "m \<in> um1 \<longleftrightarrow> m \<in> um \<or> (m = mission \<and>
        (\<exists>locs. locations_for_mission_id K ctx m = Some locs \<and>
                  (\<exists>l\<in>set locs. l \<notin> checked_locations ctx)))"
      using lf by (auto simp: um1_def unfinished_def)
    then show "m \<in> um' \<longleftrightarrow>
              m \<in> um \<or>
              (m \<in> set (mission # rest) \<and>
               (\<exists>locs. locations_for_mission_id K ctx m = Some locs \<and>
                  (\<exists>l\<in>set locs. l \<notin> checked_locations ctx)))"
      using iff by auto
  qed
  then show ?case using res step by simp
qed





section \<open>The example hierarchy, evaluated\<close>

lemma example_beaten: "beaten_missions_of example_consts example_ctx = {10, 11}"
  by (auto simp add: beaten_missions_of_def is_mission_completed_def example_ctx_def
      get_location_id_def get_location_offset_def example_consts_def VICTORY_MODULO_def)

lemma example_received:
  "received_items_of Map.empty (items_received example_ctx) = [900 \<mapsto> 2]"
  by (simp add: example_ctx_def)

lemma example_eval:
  "snapshot_eval (spec_is_accessible example_graph) example_consts example_ctx rule cache =
     (is_accessible example_graph {10, 11} [900 \<mapsto> 2] [] rule, cache)"
  by (simp add: snapshot_eval_def spec_is_accessible_def example_beaten example_received)

lemma example_rules:
  "is_accessible example_graph {10, 11} [900 \<mapsto> 2] [] (SubRule 0)"
  "is_accessible example_graph {10, 11} [900 \<mapsto> 2] [] (SubRule 1)"
  "is_accessible example_graph {10, 11} [900 \<mapsto> 2] [] (SubRule 2)"
  "is_accessible example_graph {10, 11} [900 \<mapsto> 2] [] (SubRule 3)"
  "\<not> is_accessible example_graph {10, 11} [900 \<mapsto> 2] [] (SubRule 4)"
  "\<not> is_accessible example_graph {10, 11} [900 \<mapsto> 2] [] (SubRule 5)"
  by (simp_all add: example_graph_def count_satisfied_def)

lemma example_available:
  "calc_available_nodes (spec_is_accessible example_graph) example_consts example_ctx =
     ([10, 11], [0 \<mapsto> [0], 1 \<mapsto> []], [0])"
  unfolding calc_available_nodes_def Let_def
  by (simp add: example_ctx_def [THEN arg_cong [of _ _ custom_mission_order]]
      example_campaigns_def initial_avail_state_def example_rules
      example_eval del: is_accessible.simps)

lemma example_locations:
  "locations_for_mission_id example_consts example_ctx 10 = Some [2000, 2001]"
  "locations_for_mission_id example_consts example_ctx 11 = Some [2100]"
  by (simp_all add: locations_for_mission_id_def example_ctx_def get_location_id_def
      get_location_offset_def example_consts_def VICTORY_MODULO_def)

section \<open>Properties of the available and unfinished nodes\<close>




text \<open>
  Claim C9. In the result of \<^verbatim>\<open>calc_unfinished_nodes\<close>, a mission id is in the set of
  unfinished missions if and only if it is among the available missions that
  \<^verbatim>\<open>calc_available_nodes\<close> returns for the same context and at least one of the
  locations of its objectives is not in \<^verbatim>\<open>checked_locations\<close>. The function returns
  whenever every available mission is a key of \<^verbatim>\<open>mission_id_to_location_ids\<close>
  (\<^verbatim>\<open>locations_for_mission_id\<close> raises \<^verbatim>\<open>KeyError\<close> otherwise).
\<close>

theorem calc_unfinished_nodes_iff:
  assumes "calc_available_nodes ia K ctx = (am, al, ac)"
    and "\<forall>m\<in>set am. map_of (mission_id_to_location_ids ctx) m \<noteq> None"
  shows "\<exists>um. calc_unfinished_nodes ia K ctx = Some (am, al, ac, um) \<and>
           (\<forall>m. m \<in> um \<longleftrightarrow>
              m \<in> set am \<and>
              (\<exists>locs. locations_for_mission_id K ctx m = Some locs \<and>
                 (\<exists>l\<in>set locs. l \<notin> checked_locations ctx)))"
proof -
  from unfinished_loop_result [OF assms(2), of K "{}"] obtain um where
    "unfinished_loop K ctx {} am = Some um" and
    "\<forall>m. m \<in> um \<longleftrightarrow>
              m \<in> {} \<or>
              (m \<in> set am \<and>
               (\<exists>locs. locations_for_mission_id K ctx m = Some locs \<and>
                  (\<exists>l\<in>set locs. l \<notin> checked_locations ctx)))"
    by blast
  then show ?thesis
    using assms(1) by (simp add: calc_unfinished_nodes_def)
qed

theorem calc_unfinished_nodes_iff_witness:
  "\<exists>um. calc_unfinished_nodes (spec_is_accessible example_graph) example_consts example_ctx =
          Some ([10, 11], [0 \<mapsto> [0], 1 \<mapsto> []], [0], um)
        \<and> 10 \<in> um \<and> 11 \<notin> um \<and> 12 \<notin> um"
proof -
  have keys: "\<forall>m\<in>set [10, 11]. map_of (mission_id_to_location_ids example_ctx) m \<noteq> None"
    by (simp add: example_ctx_def)
  have checked: "checked_locations example_ctx = {2000, 2100}"
    by (simp add: example_ctx_def)
  from calc_unfinished_nodes_iff [OF example_available keys]
  obtain um where
    res: "calc_unfinished_nodes (spec_is_accessible example_graph) example_consts example_ctx =
          Some ([10, 11], [0 \<mapsto> [0], 1 \<mapsto> []], [0], um)"
    and iff: "\<And>m. m \<in> um \<longleftrightarrow>
              m \<in> set [10, 11] \<and>
              (\<exists>locs. locations_for_mission_id example_consts example_ctx m = Some locs \<and>
                 (\<exists>l\<in>set locs. l \<notin> checked_locations example_ctx))"
    by blast
  have "10 \<in> um" using iff [of 10] by (simp add: example_locations checked)
  moreover have "11 \<notin> um" using iff [of 11] by (simp add: example_locations checked)
  moreover have "12 \<notin> um" using iff [of 12] by simp
  ultimately show ?thesis using res by blast
qed

text \<open>
  Claim C10. For every hierarchy and every state, the dictionary \<^verbatim>\<open>available_layouts\<close>
  that \<^verbatim>\<open>calc_available_nodes\<close> returns has exactly the campaign indices of the
  hierarchy as its keys, so that \<^verbatim>\<open>available_layouts[campaign_idx]\<close> finds its key for
  every valid index; a campaign that is not among the available campaigns maps to the
  empty list; and a layout index is listed under a campaign only if that campaign is
  among the available campaigns.
\<close>

theorem available_layouts_keys:
  assumes "calc_available_nodes ia K ctx = (am, al, ac)"
  shows "dom al = {0..<length (custom_mission_order ctx)}
       \<and> (\<forall>ci. ci < length (custom_mission_order ctx) \<and> ci \<notin> set ac \<longrightarrow> al ci = Some [])
       \<and> (\<forall>ci li ls. al ci = Some ls \<and> li \<in> set ls \<longrightarrow> ci \<in> set ac)"
proof -
  let ?res = "campaigns_loop (snapshot_eval ia K ctx) initial_avail_state 0
                 (custom_mission_order ctx)"
  have al: "al = available_layouts ?res" and ac: "ac = available_campaigns ?res"
    using assms by (simp_all add: calc_available_nodes_def Let_def)
  have d: "dom al = {0..<length (custom_mission_order ctx)}"
    unfolding al campaigns_loop_dom by (simp add: initial_avail_state_def)
  have locked: "al ci = Some []"
    if "ci < length (custom_mission_order ctx)" "ci \<notin> set ac" for ci
    using campaigns_loop_locked [of ci "custom_mission_order ctx" 0 "snapshot_eval ia K ctx"
        initial_avail_state] that
    by (simp add: al ac)
  have "ci \<in> set ac" if "al ci = Some ls" "li \<in> set ls" for ci li ls
  proof (rule ccontr)
    assume "ci \<notin> set ac"
    moreover have "ci < length (custom_mission_order ctx)"
      using that(1) d by (metis atLeastLessThan_iff domI)
    ultimately have "al ci = Some []" by (rule locked [rotated])
    with that show False by simp
  qed
  with d locked show ?thesis by blast
qed

theorem available_layouts_keys_witness:
  "dom [0 \<mapsto> [0::nat], (1::nat) \<mapsto> []] = {0..<length (custom_mission_order example_ctx)}
   \<and> (1::nat) < length (custom_mission_order example_ctx) \<and> (1::nat) \<notin> set [0]
   \<and> [0 \<mapsto> [0::nat], (1::nat) \<mapsto> []] 1 = Some []
   \<and> [0 \<mapsto> [0::nat], (1::nat) \<mapsto> []] 0 = Some [0] \<and> (0::nat) \<in> set [0]"
proof -
  have len: "length (custom_mission_order example_ctx) = 2"
    by (simp add: example_ctx_def example_campaigns_def)
  show ?thesis
    using available_layouts_keys [OF example_available] len by simp
qed

section \<open>Cycle safety of the rule evaluator\<close>

lemma cycle_of_two:
  assumes "0 < na" and "0 < nb"
  shows "\<not> is_accessible [(a, [SubRule b], na), (b, [SubRule a], nb)] completed received []
           (SubRule a)"
  using assms by (cases "a = b") auto

text \<open>
  Claim C2. The evaluation of a rule is a total function of the graph, the state and the
  rule: it returns a boolean on every rule graph, also on one that holds a rule reachable
  from itself (the termination proof of \<^const>\<open>is_accessible\<close> above makes no assumption on
  the graph). A rule id that is met again while it is in progress on the recursion path
  is not accessible; so a rule \<open>A\<close> whose only child is a rule \<open>B\<close> whose only child is \<open>A\<close>
  is not accessible, whatever the state, when both ask for at least one child. And
  \<^verbatim>\<open>calc_available_nodes\<close> starts every evaluation of an entry rule with the empty list
  of rules in progress: its result depends on the method \<^verbatim>\<open>is_accessible\<close> only through
  the calls with that list empty.
\<close>

theorem cycle_safety:
  "(\<exists>result. is_accessible G completed received in_progress rule = result)
   \<and> (rule_id \<in> set in_progress \<longrightarrow>
        \<not> is_accessible G completed received in_progress (SubRule rule_id))
   \<and> (0 < na \<and> 0 < nb \<longrightarrow>
        \<not> is_accessible [(a, [SubRule b], na), (b, [SubRule a], nb)] completed received []
            (SubRule a))
   \<and> ((\<forall>r beaten items rules cache.
          ia r beaten items rules cache [] = ia' r beaten items rules cache []) \<longrightarrow>
        calc_available_nodes ia K ctx = calc_available_nodes ia' K ctx)"
proof (intro conjI impI)
  show "\<exists>result. is_accessible G completed received in_progress rule = result"
    by simp
next
  assume "rule_id \<in> set in_progress"
  then show "\<not> is_accessible G completed received in_progress (SubRule rule_id)"
    by simp
next
  assume "0 < na \<and> 0 < nb"
  then show "\<not> is_accessible [(a, [SubRule b], na), (b, [SubRule a], nb)] completed received []
      (SubRule a)"
    by (simp add: cycle_of_two)
next
  assume same: "\<forall>r beaten items rules cache.
      ia r beaten items rules cache [] = ia' r beaten items rules cache []"
  have "snapshot_eval ia K ctx = snapshot_eval ia' K ctx"
    by (intro ext) (simp add: snapshot_eval_def same)
  then show "calc_available_nodes ia K ctx = calc_available_nodes ia' K ctx"
    by (simp add: calc_available_nodes_def)
qed

theorem cycle_safety_witness:
  "\<not> is_accessible [(0, [SubRule 1], 1), (1, [SubRule 0], 1)] {10} Map.empty [0, 1] (SubRule 0)
   \<and> \<not> is_accessible [(0, [SubRule 1], 1), (1, [SubRule 0], 1)] {10} Map.empty [] (SubRule 0)
   \<and> calc_available_nodes (spec_is_accessible example_graph) example_consts example_ctx =
       calc_available_nodes
         (\<lambda>r beaten items rules cache seen.
            spec_is_accessible example_graph r beaten items rules cache [])
         example_consts example_ctx"
proof -
  have "\<not> is_accessible [(0, [SubRule 1], 1), (1, [SubRule 0], 1)] {10} Map.empty [0, 1]
      (SubRule 0)"
    using cycle_safety [of "[(0, [SubRule 1], 1), (1, [SubRule 0], 1)]" "{10}" Map.empty
        "[0, 1]" "SubRule 0" 0 1 1 0 1 "spec_is_accessible example_graph"
        "spec_is_accessible example_graph" example_consts example_ctx]
    by simp
  moreover have "\<not> is_accessible [(0, [SubRule 1], 1), (1, [SubRule 0], 1)] {10} Map.empty []
      (SubRule 0)"
    using cycle_safety [of "[(0, [SubRule 1], 1), (1, [SubRule 0], 1)]" "{10}" Map.empty
        "[]" "SubRule 0" 0 1 1 0 1 "spec_is_accessible example_graph"
        "spec_is_accessible example_graph" example_consts example_ctx]
    by simp
  moreover have "calc_available_nodes (spec_is_accessible example_graph) example_consts
        example_ctx =
      calc_available_nodes
         (\<lambda>r beaten items rules cache seen.
            spec_is_accessible example_graph r beaten items rules cache [])
         example_consts example_ctx"
    using cycle_safety [of "[]" "{}" Map.empty "[]" "SubRule 0" 0 1 1 0 1
        "spec_is_accessible example_graph"
        "\<lambda>r beaten items rules cache seen.
            spec_is_accessible example_graph r beaten items rules cache []"
        example_consts example_ctx]
    by simp
  ultimately show ?thesis by simp
qed

section \<open>Properties of the accumulator operations\<close>

lemma acc_modify_twice:
  "acc_modify acc r idx f = Some acc1 \<Longrightarrow>
     acc_modify acc1 r idx g = acc_modify acc r idx (\<lambda>old. g (f old))"
  by (auto simp: acc_modify_def norm_index_def split: bind_splits if_splits)

lemma acc_modify_None:
  "acc_modify acc r idx f = None \<Longrightarrow> acc_modify acc r idx g = None"
  by (auto simp: acc_modify_def split: bind_splits)

lemma add_levels_eq:
  "add_levels (Suc k) acc d =
     (if number d < 0 then None
      else acc_modify acc (race d) (flag_word (type d))
             (\<lambda>old. old + int (Suc k) * 2 ^ nat (number d)))"
proof (induction k arbitrary: acc)
  case 0
  show ?case
    by (cases "acc_modify acc (race d) (flag_word (type d)) (\<lambda>old. old + 2 ^ nat (number d))")
       (simp_all add: py_lshift_def push_bit_eq_mult)
next
  case (Suc k)
  let ?b = "(2::int) ^ nat (number d)"
  show ?case
  proof (cases "number d < 0")
    case True
    then show ?thesis by (simp add: py_lshift_def)
  next
    case False
    show ?thesis
    proof (cases "acc_modify acc (race d) (flag_word (type d)) (\<lambda>old. old + ?b)")
      case None
      then have "acc_modify acc (race d) (flag_word (type d))
          (\<lambda>old. old + int (Suc (Suc k)) * ?b) = None"
        by (rule acc_modify_None)
      then show ?thesis using False None by (simp add: py_lshift_def push_bit_eq_mult)
    next
      case (Some acc1)
      have "add_levels (Suc (Suc k)) acc d = add_levels (Suc k) acc1 d"
        using False Some by (simp add: py_lshift_def push_bit_eq_mult)
      also have "\<dots> = acc_modify acc1 (race d) (flag_word (type d))
          (\<lambda>old. old + int (Suc k) * ?b)"
        using False by (simp only: Suc.IH if_False)
      also have "\<dots> = acc_modify acc (race d) (flag_word (type d))
          (\<lambda>old. (old + ?b) + int (Suc k) * ?b)"
        by (rule acc_modify_twice [OF Some])
      also have "(\<lambda>old. (old + ?b) + int (Suc k) * ?b) = (\<lambda>old. old + int (Suc (Suc k)) * ?b)"
        by (intro ext) (simp add: algebra_simps)
      finally show ?thesis using False by simp
    qed
  qed
qed

lemma add_shifted_eq:
  "add_shifted acc r fg v (n # numbers) =
     (if \<exists>m\<in>set (n # numbers). m < 0 then None
      else acc_modify acc r fg (\<lambda>old. old + v * sum_of_bits (n # numbers)))"
proof (induction numbers arbitrary: acc n)
  case Nil
  show ?case
    by (cases "acc_modify acc r fg (\<lambda>old. old + v * 2 ^ nat n)")
       (simp_all add: py_lshift_def push_bit_eq_mult sum_of_bits_def)
next
  case (Cons m rest)
  show ?case
  proof (cases "n < 0")
    case True
    then show ?thesis by (simp add: py_lshift_def)
  next
    case False
    let ?b = "v * 2 ^ nat n"
    show ?thesis
    proof (cases "acc_modify acc r fg (\<lambda>old. old + ?b)")
      case None
      then have "acc_modify acc r fg (\<lambda>old. old + v * sum_of_bits (n # m # rest)) = None"
        by (rule acc_modify_None)
      then show ?thesis using False None
        by (simp add: py_lshift_def push_bit_eq_mult)
    next
      case (Some acc1)
      have step: "add_shifted acc r fg v (n # m # rest) = add_shifted acc1 r fg v (m # rest)"
        using False Some by (simp add: py_lshift_def push_bit_eq_mult)
      show ?thesis
      proof (cases "\<exists>k\<in>set (m # rest). k < 0")
        case True
        then show ?thesis unfolding step Cons.IH by auto
      next
        case neg: False
        have "add_shifted acc1 r fg v (m # rest) =
            acc_modify acc1 r fg (\<lambda>old. old + v * sum_of_bits (m # rest))"
          unfolding Cons.IH using neg by simp
        also have "\<dots> = acc_modify acc r fg (\<lambda>old. (old + ?b) + v * sum_of_bits (m # rest))"
          by (rule acc_modify_twice [OF Some])
        also have "(\<lambda>old. (old + ?b) + v * sum_of_bits (m # rest)) =
            (\<lambda>old. old + v * sum_of_bits (n # m # rest))"
          by (intro ext) (simp add: sum_of_bits_def algebra_simps)
        finally show ?thesis unfolding step using neg False by simp
      qed
    qed
  qed
qed

lemma extend_compat_eq:
  "extend_compat T items cs =
     map_option (\<lambda>new. items @ new) (compat_network_items T cs)"
proof (induction cs arbitrary: items)
  case Nil
  then show ?case by simp
next
  case (Cons c rest)
  show ?case
    by (cases "compat_item_to_network_items T c"; cases "compat_network_items T rest")
       (simp_all add: Cons.IH)
qed

lemma fold_items_append:
  "fold_items T ctx st (xs @ ys) =
     do { st' \<leftarrow> fold_items T ctx st xs; fold_items T ctx st' ys }"
proof (induction xs arbitrary: st)
  case Nil
  then show ?case by simp
next
  case (Cons x xs)
  show ?case
    by (cases "process_item T ctx st x") (simp_all add: Cons.IH)
qed

lemma replacements_never_found: "replacements_found replacement_item_ids items = 0"
proof -
  have "NetworkItemValue item_id \<notin> set (map IntValue replacement_item_ids)" for item_id
    by auto
  then show ?thesis by (simp add: replacements_found_def del: set_map)
qed

lemma bio_steel_compat_keeps:
  assumes "bio_steel_compat ctx st nm d = Some st1"
  shows "shields_from_ground_upgrade st1 = shields_from_ground_upgrade st"
    and "shields_from_air_upgrade st1 = shields_from_air_upgrade st"
    and "nm \<noteq> PROGRESSIVE_REGENERATIVE_BIO_STEEL \<Longrightarrow> st1 = st"
  using assms by (auto simp: bio_steel_compat_def split: if_splits bind_splits)

lemma count_bundle_counts:
  assumes "count_bundle T st nm d = Some st1"
  shows "shields_from_ground_upgrade st1 =
           shields_from_ground_upgrade st +
           (if nm = PROGRESSIVE_PROTOSS_GROUND_UPGRADE \<and> number d < 0 then 1 else 0)"
    and "shields_from_air_upgrade st1 =
           shields_from_air_upgrade st +
           (if nm = PROGRESSIVE_PROTOSS_AIR_UPGRADE \<and> number d < 0 then 1 else 0)"
  using assms by (auto simp: count_bundle_def Let_def split: if_splits bind_splits)

lemma sum_item_keeps:
  assumes "sum_item ctx st nm d = Some st1"
  shows "shields_from_ground_upgrade st1 = shields_from_ground_upgrade st"
    and "shields_from_air_upgrade st1 = shields_from_air_upgrade st"
  using assms by (auto simp: sum_item_def split: if_splits bind_splits)

lemma process_item_counts:
  assumes "process_item T ctx st network_item = Some st1"
  shows "shields_from_ground_upgrade st1 =
           shields_from_ground_upgrade st +
           (if item_name_of T network_item = Some PROGRESSIVE_PROTOSS_GROUND_UPGRADE
               \<and> is_bundle_item T PROGRESSIVE_PROTOSS_GROUND_UPGRADE then 1 else 0)"
    and "shields_from_air_upgrade st1 =
           shields_from_air_upgrade st +
           (if item_name_of T network_item = Some PROGRESSIVE_PROTOSS_AIR_UPGRADE
               \<and> is_bundle_item T PROGRESSIVE_PROTOSS_AIR_UPGRADE then 1 else 0)"
proof -
  from assms obtain nm d where
    nm: "map_of (lookup_id_to_name T) (item network_item) = Some nm" and
    d: "map_of (full_item_list T) nm = Some d"
    by (auto simp: process_item_def split: bind_splits)
  have both: "shields_from_ground_upgrade st1 =
           shields_from_ground_upgrade st +
           (if nm = PROGRESSIVE_PROTOSS_GROUND_UPGRADE \<and>
               0 \<le> flag_word (type d) \<and> 1 < quantity d \<and> number d < 0 then 1 else 0)
      \<and> shields_from_air_upgrade st1 =
           shields_from_air_upgrade st +
           (if nm = PROGRESSIVE_PROTOSS_AIR_UPGRADE \<and>
               0 \<le> flag_word (type d) \<and> 1 < quantity d \<and> number d < 0 then 1 else 0)"
  proof (cases "flag_word (type d) < 0")
    case True
    then show ?thesis using assms nm d by (simp add: process_item_def)
  next
    case flag: False
    show ?thesis
    proof (cases "quantity d = 1")
      case True
      then show ?thesis using assms nm d flag
        by (auto simp: process_item_def split: bind_splits)
    next
      case q1: False
      show ?thesis
      proof (cases "1 < quantity d")
        case True
        from assms nm d flag q1 True obtain st' where
          cb: "count_bundle T st nm d = Some st'" and bs: "bio_steel_compat ctx st' nm d = Some st1"
          by (auto simp: process_item_def split: bind_splits)
        show ?thesis
          using count_bundle_counts [OF cb] bio_steel_compat_keeps(1,2) [OF bs] flag True
          by simp
      next
        case False
        then have "sum_item ctx st nm d = Some st1"
          using assms nm d flag q1 by (simp add: process_item_def)
        from sum_item_keeps [OF this] show ?thesis using False by simp
      qed
    qed
  qed
  show "shields_from_ground_upgrade st1 =
           shields_from_ground_upgrade st +
           (if item_name_of T network_item = Some PROGRESSIVE_PROTOSS_GROUND_UPGRADE
               \<and> is_bundle_item T PROGRESSIVE_PROTOSS_GROUND_UPGRADE then 1 else 0)"
    using both nm d by (auto simp: item_name_of_def is_bundle_item_def)
  show "shields_from_air_upgrade st1 =
           shields_from_air_upgrade st +
           (if item_name_of T network_item = Some PROGRESSIVE_PROTOSS_AIR_UPGRADE
               \<and> is_bundle_item T PROGRESSIVE_PROTOSS_AIR_UPGRADE then 1 else 0)"
    using both nm d by (auto simp: item_name_of_def is_bundle_item_def)
qed

lemma fold_items_counts:
  assumes "fold_items T ctx st items = Some st1"
  shows "shields_from_ground_upgrade st1 =
           shields_from_ground_upgrade st +
           (if is_bundle_item T PROGRESSIVE_PROTOSS_GROUND_UPGRADE
            then int (copies_of T PROGRESSIVE_PROTOSS_GROUND_UPGRADE items) else 0)
       \<and> shields_from_air_upgrade st1 =
           shields_from_air_upgrade st +
           (if is_bundle_item T PROGRESSIVE_PROTOSS_AIR_UPGRADE
            then int (copies_of T PROGRESSIVE_PROTOSS_AIR_UPGRADE items) else 0)"
  using assms
proof (induction items arbitrary: st)
  case Nil
  then show ?case by (simp add: copies_of_def)
next
  case (Cons x xs)
  from Cons.prems obtain st' where
    p: "process_item T ctx st x = Some st'" and f: "fold_items T ctx st' xs = Some st1"
    by (auto split: bind_splits)
  show ?case
    using Cons.IH [OF f] process_item_counts [OF p]
    by (simp add: copies_of_def)
qed

lemma bundle_copy_effect:
  assumes b: "bundled = PROGRESSIVE_PROTOSS_GROUND_UPGRADE \<or> bundled = PROGRESSIVE_PROTOSS_AIR_UPGRADE"
    and nm: "item_name_of T network_item = Some bundled"
    and ib: "is_bundle_item T bundled"
    and p: "process_item T ctx st0 network_item = Some st1"
  shows "\<exists>d members numbers.
           map_of (full_item_list T) bundled = Some d
         \<and> map_of (upgrade_bundles T) bundled = Some members
         \<and> item_numbers T (filter (\<lambda>m. m \<noteq> PROGRESSIVE_PROTOSS_SHIELDS) members) = Some numbers
         \<and> (if numbers = [] then accumulators st1 = accumulators st0
            else acc_modify (accumulators st0) (race d) (flag_word (type d))
                   (\<lambda>old. old + sum_of_bits numbers) = Some (accumulators st1))"
proof -
  from ib obtain d where d: "map_of (full_item_list T) bundled = Some d"
    and fl: "0 \<le> flag_word (type d)" and q: "1 < quantity d" and n: "number d < 0"
    by (auto simp: is_bundle_item_def split: option.splits)
  from p nm d fl q obtain st' where
    cb: "count_bundle T st0 bundled d = Some st'" and bs: "bio_steel_compat ctx st' bundled d = Some st1"
    by (auto simp: process_item_def item_name_of_def split: bind_splits)
  have "bundled \<noteq> PROGRESSIVE_REGENERATIVE_BIO_STEEL" using b by auto
  from bio_steel_compat_keeps(3) [OF bs this] have st1: "st1 = st'" .
  from cb n b obtain members numbers acc where
    m: "map_of (upgrade_bundles T) bundled = Some members" and
    nums: "item_numbers T (filter (\<lambda>m. m \<noteq> PROGRESSIVE_PROTOSS_SHIELDS) members) = Some numbers" and
    add: "add_shifted (accumulators st0) (race d) (flag_word (type d)) 1 numbers = Some acc" and
    acc: "accumulators st' = acc"
    by (auto simp: count_bundle_def get_bundle_upgrade_member_numbers_def Let_def
        split: bind_splits if_splits)
  have "if numbers = [] then accumulators st1 = accumulators st0
        else acc_modify (accumulators st0) (race d) (flag_word (type d))
               (\<lambda>old. old + sum_of_bits numbers) = Some (accumulators st1)"
  proof (cases numbers)
    case Nil
    then show ?thesis using add acc st1 by simp
  next
    case (Cons k rest)
    then show ?thesis
      using add acc st1 add_shifted_eq [of "accumulators st0" "race d" "flag_word (type d)" 1 k rest]
      by (simp split: if_splits)
  qed
  with d m nums show ?thesis by blast
qed

section \<open>The shape of the item accumulator\<close>

lemma extended_items_eq:
  "extended_items T ord ctx =
     do {
       shim23 \<leftarrow> (if slot_data_version ctx < 3
                   then compat_network_items T (api2_to_api3_order ord) else Some []);
       shim34 \<leftarrow> (if slot_data_version ctx < 4
                   then compat_network_items T (api3_to_api4_order ord) else Some []);
       Some (items_received ctx @ shim23 @ shim34)
     }"
  by (cases "compat_network_items T (api2_to_api3_order ord)";
      cases "compat_network_items T (api3_to_api4_order ord)")
     (simp_all add: extended_items_def extend_compat_eq)

lemma fix_shields_max:
  assumes loop: "fold_items T ctx (initial_calc_state T) items = Some st"
    and ground: "is_bundle_item T PROGRESSIVE_PROTOSS_GROUND_UPGRADE"
    and air: "is_bundle_item T PROGRESSIVE_PROTOSS_AIR_UPGRADE"
    and shield: "map_of (full_item_list T) PROGRESSIVE_PROTOSS_SHIELDS = Some shield"
  shows "fix_shields T st =
           (if copies_of T PROGRESSIVE_PROTOSS_GROUND_UPGRADE items = 0
               \<and> copies_of T PROGRESSIVE_PROTOSS_AIR_UPGRADE items = 0
            then Some (accumulators st)
            else if number shield < 0 then None
            else acc_modify (accumulators st) (race shield) (flag_word (type shield))
                   (\<lambda>old. old +
                      int (max (copies_of T PROGRESSIVE_PROTOSS_GROUND_UPGRADE items)
                               (copies_of T PROGRESSIVE_PROTOSS_AIR_UPGRADE items))
                      * 2 ^ nat (number shield)))"
proof -
  let ?g = "copies_of T PROGRESSIVE_PROTOSS_GROUND_UPGRADE items"
  let ?a = "copies_of T PROGRESSIVE_PROTOSS_AIR_UPGRADE items"
  have g: "shields_from_ground_upgrade st = int ?g" and a: "shields_from_air_upgrade st = int ?a"
    using fold_items_counts [OF loop] ground air by (simp_all add: initial_calc_state_def)
  show ?thesis
  proof (cases "?g = 0 \<and> ?a = 0")
    case True
    then show ?thesis by (simp add: fix_shields_def g a)
  next
    case False
    then obtain k where k: "max ?g ?a = Suc k"
      by (cases "max ?g ?a") auto
    have lvl: "nat (max (int ?g) (int ?a)) = Suc k"
      using k by (metis nat_int of_nat_max)
    have "fix_shields T st = add_levels (Suc k) (accumulators st) shield"
      using False shield by (auto simp add: fix_shields_def g a lvl Let_def)
    then have "fix_shields T st =
        (if number shield < 0 then None
         else acc_modify (accumulators st) (race shield) (flag_word (type shield))
                (\<lambda>old. old + int (max ?g ?a) * 2 ^ nat (number shield)))"
      unfolding add_levels_eq k by simp
    then show ?thesis
      by (simp only: False if_False)
  qed
qed

section \<open>The example tables, evaluated\<close>

lemmas example_table_defs =
  example_tables_def example_item_list_def item_data_of_def received_item_def

lemmas item_loop_defs =
  process_item_def count_bundle_def bio_steel_compat_def sum_item_def
  get_bundle_upgrade_member_numbers_def acc_modify_def acc_get_def norm_index_def
  py_lshift_def py_rshift_def initial_calc_state_def

lemma example_copies:
  "copies_of example_tables PROGRESSIVE_PROTOSS_GROUND_UPGRADE
     (map received_item [716, 716, 717, 717, 717]) = 2"
  "copies_of example_tables PROGRESSIVE_PROTOSS_AIR_UPGRADE
     (map received_item [716, 716, 717, 717, 717]) = 3"
  by (simp_all add: copies_of_def item_name_of_def example_table_defs)

lemma example_bundles:
  "is_bundle_item example_tables PROGRESSIVE_PROTOSS_GROUND_UPGRADE"
  "is_bundle_item example_tables PROGRESSIVE_PROTOSS_AIR_UPGRADE"
  "map_of (full_item_list example_tables) PROGRESSIVE_PROTOSS_SHIELDS =
     Some (item_data_of 712 ''Upgrade'' 1 4 PROTOSS 3)"
  by (simp_all add: is_bundle_item_def example_tables_def example_item_list_def item_data_of_def)

lemma example_orders_valid: "valid_orders example_tables example_orders"
  by (simp add: valid_orders_def iterates_def example_orders_def API2_TO_API3_COMPAT_ITEMS_def
      API3_TO_API4_COMPAT_ITEMS_def example_tables_def example_item_list_def item_data_of_def)

lemmas calculate_items_defs =
  calculate_items_def extended_items_def fix_shields_def orbital_command_compat_def
  orbital_command_replacement_items_def mission_upgrades_def example_ctx_with_def
  example_ctx_def

lemma example_missions_beaten: "missions_beaten_count example_ctx = 2"
proof -
  have "Set.filter (\<lambda>loc. loc mod 100 = 0) {2000, 2100 :: int} = {2000, 2100}"
    by auto
  then show ?thesis
    by (simp add: missions_beaten_count_def example_ctx_def VICTORY_MODULO_def)
qed

section \<open>Properties of the item accumulator\<close>

text \<open>
  Claim C4, as stated: the implied items of a compatibility shim are applied before the
  real received items are folded, never after them. The loop of \<^verbatim>\<open>calculate_items\<close>
  runs over \<^verbatim>\<open>items\<close> from its head, and \<^verbatim>\<open>items.extend\<close> puts the implied items at
  its end. For a game of version 3 only the second shim applies; with the example tables
  its set has one element, so that no order of iteration is involved: with one received
  item, the list that the loop folds holds the received item first and the implied item
  after it, not before.
\<close>

theorem compat_items_order_counterexample:
  "valid_orders example_tables example_orders
   \<and> API3_TO_API4_COMPAT_ITEMS example_tables =
       {\<lparr>name = OTHER_ITEM ''Zealot War Council'', holder_quantity = 1\<rparr>}
   \<and> extended_items example_tables example_orders (example_ctx_with 3 [110]) =
       Some [received_item 110, \<lparr>item = 720, location = 0, player = 0, flags = 0\<rparr>]
   \<and> extended_items example_tables example_orders (example_ctx_with 3 [110]) \<noteq>
       Some [\<lparr>item = 720, location = 0, player = 0, flags = 0\<rparr>, received_item 110]"
proof (intro conjI)
  show "valid_orders example_tables example_orders"
    by (rule example_orders_valid)
  show "API3_TO_API4_COMPAT_ITEMS example_tables =
       {\<lparr>name = OTHER_ITEM ''Zealot War Council'', holder_quantity = 1\<rparr>}"
    by (simp add: API3_TO_API4_COMPAT_ITEMS_def example_tables_def example_item_list_def
        item_data_of_def)
  have items: "extended_items example_tables example_orders (example_ctx_with 3 [110]) =
       Some [received_item 110, \<lparr>item = 720, location = 0, player = 0, flags = 0\<rparr>]"
    by (simp add: extended_items_def example_ctx_with_def example_orders_def
        compat_item_to_network_items_def example_table_defs)
  then show "extended_items example_tables example_orders (example_ctx_with 3 [110]) =
       Some [received_item 110, \<lparr>item = 720, location = 0, player = 0, flags = 0\<rparr>]" .
  show "extended_items example_tables example_orders (example_ctx_with 3 [110]) \<noteq>
       Some [\<lparr>item = 720, location = 0, player = 0, flags = 0\<rparr>, received_item 110]"
    unfolding items by (simp add: received_item_def)
qed

text \<open>
  Claim C4, amended. When the version of the slot data is below the threshold of a shim
  (3 for the set from API 2 to API 3, 4 for the set from API 3 to API 4),
  \<^verbatim>\<open>calculate_items\<close> makes the implied items of the shim before the loop starts, one
  holder of the set after the other in the order of the iteration, and appends them to a
  copy of the received items, the first shim before the second. The loop of
  \<^verbatim>\<open>calculate_items\<close> folds the real received items first, then the implied items of the
  first shim, then those of the second; what follows the loop sees the state after all
  three. The equation holds for every order \<open>ord\<close> in which the two sets are iterated.
\<close>

theorem compat_items_appended:
  "calculate_items T ord K ctx =
     do {
       shim23 \<leftarrow> (if slot_data_version ctx < 3
                   then compat_network_items T (api2_to_api3_order ord) else Some []);
       shim34 \<leftarrow> (if slot_data_version ctx < 4
                   then compat_network_items T (api3_to_api4_order ord) else Some []);
       st1 \<leftarrow> fold_items T ctx (initial_calc_state T) (items_received ctx);
       st2 \<leftarrow> fold_items T ctx st1 shim23;
       st \<leftarrow> fold_items T ctx st2 shim34;
       acc1 \<leftarrow> fix_shields T st;
       (warnings, acc2) \<leftarrow>
         orbital_command_compat T (items_received ctx @ shim23 @ shim34)
           (orbital_command_count st) acc1;
       acc3 \<leftarrow> mission_upgrades T K ctx acc2;
       Some (warnings, acc3)
     }
   \<and> extended_items T ord ctx =
     do {
       shim23 \<leftarrow> (if slot_data_version ctx < 3
                   then compat_network_items T (api2_to_api3_order ord) else Some []);
       shim34 \<leftarrow> (if slot_data_version ctx < 4
                   then compat_network_items T (api3_to_api4_order ord) else Some []);
       Some (items_received ctx @ shim23 @ shim34)
     }"
proof
  define A where "A = (if slot_data_version ctx < 3
                   then compat_network_items T (api2_to_api3_order ord) else Some [])"
  define B where "B = (if slot_data_version ctx < 4
                   then compat_network_items T (api3_to_api4_order ord) else Some [])"
  have ext: "extended_items T ord ctx =
      do { shim23 \<leftarrow> A; shim34 \<leftarrow> B; Some (items_received ctx @ shim23 @ shim34) }"
    unfolding A_def B_def by (rule extended_items_eq)
  have "calculate_items T ord K ctx =
     do {
       shim23 \<leftarrow> A;
       shim34 \<leftarrow> B;
       st1 \<leftarrow> fold_items T ctx (initial_calc_state T) (items_received ctx);
       st2 \<leftarrow> fold_items T ctx st1 shim23;
       st \<leftarrow> fold_items T ctx st2 shim34;
       acc1 \<leftarrow> fix_shields T st;
       (warnings, acc2) \<leftarrow>
         orbital_command_compat T (items_received ctx @ shim23 @ shim34)
           (orbital_command_count st) acc1;
       acc3 \<leftarrow> mission_upgrades T K ctx acc2;
       Some (warnings, acc3)
     }"
    unfolding calculate_items_def ext
    by (cases A; cases B) (simp_all add: fold_items_append)
  then show "calculate_items T ord K ctx =
     do {
       shim23 \<leftarrow> (if slot_data_version ctx < 3
                   then compat_network_items T (api2_to_api3_order ord) else Some []);
       shim34 \<leftarrow> (if slot_data_version ctx < 4
                   then compat_network_items T (api3_to_api4_order ord) else Some []);
       st1 \<leftarrow> fold_items T ctx (initial_calc_state T) (items_received ctx);
       st2 \<leftarrow> fold_items T ctx st1 shim23;
       st \<leftarrow> fold_items T ctx st2 shim34;
       acc1 \<leftarrow> fix_shields T st;
       (warnings, acc2) \<leftarrow>
         orbital_command_compat T (items_received ctx @ shim23 @ shim34)
           (orbital_command_count st) acc1;
       acc3 \<leftarrow> mission_upgrades T K ctx acc2;
       Some (warnings, acc3)
     }"
    unfolding A_def B_def .
  show "extended_items T ord ctx =
     do {
       shim23 \<leftarrow> (if slot_data_version ctx < 3
                   then compat_network_items T (api2_to_api3_order ord) else Some []);
       shim34 \<leftarrow> (if slot_data_version ctx < 4
                   then compat_network_items T (api3_to_api4_order ord) else Some []);
       Some (items_received ctx @ shim23 @ shim34)
     }"
    by (rule extended_items_eq)
qed

text \<open>
  Claim C5 says that the substitution for the deprecated Orbital Command is skipped, with
  a warning, when one of its replacement items is among the received items. The test of
  the code compares the received \<^verbatim>\<open>NetworkItem\<close> tuples themselves with the integer codes
  of the replacements, so it never finds one: no call of the handling returns the
  warning. With the example tables, a received Orbital Command and a received Scanner
  Sweep give no warning and the Terran word 4, where the Scanner Sweep alone gives 1: the
  substitution has been added on top of the bit already set.
\<close>

theorem orbital_command_check_never_fires:
  "replacements_found replacement_item_ids items = 0
   \<and> map_option fst (orbital_command_compat T items n acc) \<noteq> Some [skip_warning]
   \<and> map_option (\<lambda>(warnings, acc). (warnings, acc TERRAN))
       (calculate_items example_tables example_orders example_consts (example_ctx_with 4 [101, 110])) =
     Some ([], Some [4, 0])
   \<and> map_option (\<lambda>(warnings, acc). (warnings, acc TERRAN))
       (calculate_items example_tables example_orders example_consts (example_ctx_with 4 [110])) =
     Some ([], Some [1, 0])"
proof (intro conjI)
  show "replacements_found replacement_item_ids items = 0"
    by (rule replacements_never_found)
  show "map_option fst (orbital_command_compat T items n acc) \<noteq> Some [skip_warning]"
    by (auto simp: orbital_command_compat_def replacements_never_found
        split: bind_splits if_splits)
  show "map_option (\<lambda>(warnings, acc). (warnings, acc TERRAN))
       (calculate_items example_tables example_orders example_consts (example_ctx_with 4 [101, 110])) =
     Some ([], Some [4, 0])"
    by (simp add: calculate_items_defs replacements_never_found example_table_defs
        item_loop_defs)
  show "map_option (\<lambda>(warnings, acc). (warnings, acc TERRAN))
       (calculate_items example_tables example_orders example_consts (example_ctx_with 4 [110])) =
     Some ([], Some [1, 0])"
    by (simp add: calculate_items_defs replacements_never_found example_table_defs
        item_loop_defs)
qed

text \<open>
  Claim C6. Where the Progressive Protoss Ground Upgrade and the Progressive Protoss Air
  Upgrade are bundle items of the table, \<^verbatim>\<open>calculate_items\<close> gives the Protoss Shields
  slot, for the copies of the two bundles among the items it folds, one addition of
  \<open>max(groundCopies, airCopies)\<close> shield levels, that is of \<open>max * (1 << number)\<close> for the
  number of the shields item, made once between the loop and the handling of the Orbital
  Command, and not one level per copy of each (with 2 and 3 copies, the 3 levels of the
  3 copies alone); and every copy of either bundle adds, in the loop, \<^verbatim>\<open>1 << number\<close>
  for each member of its bundle other than the shields.
\<close>

theorem protoss_shields_max_of_bundles:
  assumes ground: "is_bundle_item T PROGRESSIVE_PROTOSS_GROUND_UPGRADE"
    and air: "is_bundle_item T PROGRESSIVE_PROTOSS_AIR_UPGRADE"
    and shield: "map_of (full_item_list T) PROGRESSIVE_PROTOSS_SHIELDS = Some shield"
  shows "calculate_items T ord K ctx =
           do {
             items \<leftarrow> extended_items T ord ctx;
             st \<leftarrow> fold_items T ctx (initial_calc_state T) items;
             acc1 \<leftarrow>
               (if copies_of T PROGRESSIVE_PROTOSS_GROUND_UPGRADE items = 0
                   \<and> copies_of T PROGRESSIVE_PROTOSS_AIR_UPGRADE items = 0
                then Some (accumulators st)
                else if number shield < 0 then None
                else acc_modify (accumulators st) (race shield) (flag_word (type shield))
                       (\<lambda>old. old +
                          int (max (copies_of T PROGRESSIVE_PROTOSS_GROUND_UPGRADE items)
                                   (copies_of T PROGRESSIVE_PROTOSS_AIR_UPGRADE items))
                          * 2 ^ nat (number shield)));
             (warnings, acc2) \<leftarrow>
               orbital_command_compat T items (orbital_command_count st) acc1;
             acc3 \<leftarrow> mission_upgrades T K ctx acc2;
             Some (warnings, acc3)
           }
       \<and> (\<forall>bundled network_item st0 st1.
            (bundled = PROGRESSIVE_PROTOSS_GROUND_UPGRADE \<or> bundled = PROGRESSIVE_PROTOSS_AIR_UPGRADE)
            \<and> item_name_of T network_item = Some bundled
            \<and> process_item T ctx st0 network_item = Some st1 \<longrightarrow>
            (\<exists>d members numbers.
               map_of (full_item_list T) bundled = Some d
             \<and> map_of (upgrade_bundles T) bundled = Some members
             \<and> item_numbers T (filter (\<lambda>m. m \<noteq> PROGRESSIVE_PROTOSS_SHIELDS) members) =
                 Some numbers
             \<and> (if numbers = [] then accumulators st1 = accumulators st0
                else acc_modify (accumulators st0) (race d) (flag_word (type d))
                       (\<lambda>old. old + sum_of_bits numbers) = Some (accumulators st1))))"
proof (intro conjI allI impI)
  show "calculate_items T ord K ctx =
           do {
             items \<leftarrow> extended_items T ord ctx;
             st \<leftarrow> fold_items T ctx (initial_calc_state T) items;
             acc1 \<leftarrow>
               (if copies_of T PROGRESSIVE_PROTOSS_GROUND_UPGRADE items = 0
                   \<and> copies_of T PROGRESSIVE_PROTOSS_AIR_UPGRADE items = 0
                then Some (accumulators st)
                else if number shield < 0 then None
                else acc_modify (accumulators st) (race shield) (flag_word (type shield))
                       (\<lambda>old. old +
                          int (max (copies_of T PROGRESSIVE_PROTOSS_GROUND_UPGRADE items)
                                   (copies_of T PROGRESSIVE_PROTOSS_AIR_UPGRADE items))
                          * 2 ^ nat (number shield)));
             (warnings, acc2) \<leftarrow>
               orbital_command_compat T items (orbital_command_count st) acc1;
             acc3 \<leftarrow> mission_upgrades T K ctx acc2;
             Some (warnings, acc3)
           }"
  proof (cases "extended_items T ord ctx")
    case None
    then show ?thesis by (simp add: calculate_items_def)
  next
    case (Some items)
    show ?thesis
    proof (cases "fold_items T ctx (initial_calc_state T) items")
      case None
      then show ?thesis using Some by (simp add: calculate_items_def)
    next
      case (Some st)
      show ?thesis
        unfolding calculate_items_def
        by (simp only: \<open>extended_items T ord ctx = Some items\<close> Some Option.bind.simps
            fix_shields_max [OF Some ground air shield])
    qed
  qed
next
  fix bundled network_item st0 st1
  assume h: "(bundled = PROGRESSIVE_PROTOSS_GROUND_UPGRADE \<or> bundled = PROGRESSIVE_PROTOSS_AIR_UPGRADE)
            \<and> item_name_of T network_item = Some bundled
            \<and> process_item T ctx st0 network_item = Some st1"
  then have "is_bundle_item T bundled" using ground air by auto
  with h show "\<exists>d members numbers.
               map_of (full_item_list T) bundled = Some d
             \<and> map_of (upgrade_bundles T) bundled = Some members
             \<and> item_numbers T (filter (\<lambda>m. m \<noteq> PROGRESSIVE_PROTOSS_SHIELDS) members) =
                 Some numbers
             \<and> (if numbers = [] then accumulators st1 = accumulators st0
                else acc_modify (accumulators st0) (race d) (flag_word (type d))
                       (\<lambda>old. old + sum_of_bits numbers) = Some (accumulators st1))"
    using bundle_copy_effect [of bundled T network_item ctx st0 st1] by blast
qed

text \<open>
  With the example tables, two copies of the ground bundle and three of the air bundle
  give the Protoss upgrade word \<open>2 * 5 + 3 * 320 + 3 * 16 = 1018\<close>, and the three copies
  of the air bundle alone give \<open>3 * 320 + 3 * 16 = 1008\<close>: the two bits of the shields
  hold 3 in both.
\<close>

theorem protoss_shields_max_of_bundles_witness:
  "is_bundle_item example_tables PROGRESSIVE_PROTOSS_GROUND_UPGRADE
   \<and> is_bundle_item example_tables PROGRESSIVE_PROTOSS_AIR_UPGRADE
   \<and> copies_of example_tables PROGRESSIVE_PROTOSS_GROUND_UPGRADE
       (map received_item [716, 716, 717, 717, 717]) = 2
   \<and> copies_of example_tables PROGRESSIVE_PROTOSS_AIR_UPGRADE
       (map received_item [716, 716, 717, 717, 717]) = 3
   \<and> map_option (\<lambda>(warnings, acc). acc PROTOSS)
       (calculate_items example_tables example_orders example_consts
          (example_ctx_with 4 [716, 716, 717, 717, 717])) = Some (Some [0, 1018, 0, 0])
   \<and> map_option (\<lambda>(warnings, acc). acc PROTOSS)
       (calculate_items example_tables example_orders example_consts
          (example_ctx_with 4 [717, 717, 717])) = Some (Some [0, 1008, 0, 0])
   \<and> drop_bit 4 (1018::int) mod 4 = 3 \<and> drop_bit 4 (1008::int) mod 4 = 3"
proof -
  note eq = protoss_shields_max_of_bundles [OF example_bundles, THEN conjunct1]
  have both: "map_option (\<lambda>(warnings, acc). acc PROTOSS)
       (calculate_items example_tables example_orders example_consts
          (example_ctx_with 4 [716, 716, 717, 717, 717])) = Some (Some [0, 1018, 0, 0])"
    unfolding eq [of example_orders example_consts "example_ctx_with 4 [716, 716, 717, 717, 717]"]
    by (simp add: extended_items_def orbital_command_compat_def mission_upgrades_def
        example_ctx_with_def example_ctx_def copies_of_def item_name_of_def
        example_table_defs item_loop_defs)
  have air: "map_option (\<lambda>(warnings, acc). acc PROTOSS)
       (calculate_items example_tables example_orders example_consts
          (example_ctx_with 4 [717, 717, 717])) = Some (Some [0, 1008, 0, 0])"
    unfolding eq [of example_orders example_consts "example_ctx_with 4 [717, 717, 717]"]
    by (simp add: extended_items_def orbital_command_compat_def mission_upgrades_def
        example_ctx_with_def example_ctx_def copies_of_def item_name_of_def
        example_table_defs item_loop_defs)
  have bits: "drop_bit 4 (1018::int) mod 4 = 3 \<and> drop_bit 4 (1008::int) mod 4 = 3"
    by (simp add: drop_bit_eq_div)
  show ?thesis
    using example_bundles(1,2) example_copies both air bits by simp
qed

section \<open>Properties of the level of Kerrigan\<close>

text \<open>
  Claim C3, as stated: the level is the minimum of the sum of the item value and the
  mission value with the first cap, capped again by the second. The code caps the mission
  value alone: with an item value of 5, two beaten missions worth 3 levels each and a
  first cap of 4, it returns \<open>5 + min(6, 4) = 9\<close>, where the claim gives
  \<open>min(5 + 6, 4) = 4\<close>.
\<close>

theorem kerrigan_level_cap_counterexample:
  "get_kerrigan_level example_tables
     (example_ctx\<lparr>kerrigan_levels_per_mission_completed := 3,
                  kerrigan_levels_per_mission_completed_cap := 4\<rparr>)
     [ZERG \<mapsto> [0, 5]] (missions_beaten_count example_ctx) = Some 9
   \<and> blended_level_spec 5 (missions_beaten_count example_ctx) 3 4 (- 1) = 4"
  unfolding example_missions_beaten
  by (simp add: get_kerrigan_level_def acc_get_def norm_index_def
      example_tables_def example_ctx_def blended_level_spec_def capped_def)

text \<open>
  Claim C3, amended. \<^verbatim>\<open>get_kerrigan_level\<close> returns the item value plus the mission
  value \<open>missionsBeaten * kerrigan_levels_per_mission_completed\<close>, where the first cap
  \<^verbatim>\<open>kerrigan_levels_per_mission_completed_cap\<close> bounds the mission value alone before the
  item value is added, and the second cap \<^verbatim>\<open>kerrigan_total_level_cap\<close> bounds the sum;
  a cap of \<open>-1\<close> is no cap. With no first cap this is the value the specification gives.
  The item value is \<^verbatim>\<open>items[SC2Race.ZERG][ZergItemType.Level.flag_word]\<close>, and the
  function raises where that entry is missing.
\<close>

theorem get_kerrigan_level_caps:
  "get_kerrigan_level T ctx items missions_beaten =
     map_option
       (\<lambda>item_value.
          capped (kerrigan_total_level_cap ctx)
            (item_value +
             capped (kerrigan_levels_per_mission_completed_cap ctx)
               (missions_beaten * kerrigan_levels_per_mission_completed ctx)))
       (acc_get items ZERG (flag_word (ZergItemType_Level T)))
   \<and> (kerrigan_levels_per_mission_completed_cap ctx = - 1 \<longrightarrow>
        get_kerrigan_level T ctx items missions_beaten =
          map_option
            (\<lambda>item_value.
               blended_level_spec item_value missions_beaten
                 (kerrigan_levels_per_mission_completed ctx) (- 1)
                 (kerrigan_total_level_cap ctx))
            (acc_get items ZERG (flag_word (ZergItemType_Level T))))"
  by (cases "acc_get items ZERG (flag_word (ZergItemType_Level T))")
     (simp_all add: get_kerrigan_level_def capped_def blended_level_spec_def Let_def)

theorem get_kerrigan_level_caps_witness:
  "get_kerrigan_level example_tables
     (example_ctx\<lparr>kerrigan_levels_per_mission_completed := 3, kerrigan_total_level_cap := 10\<rparr>)
     [ZERG \<mapsto> [0, 5]] 2 = Some 10
   \<and> blended_level_spec 5 2 3 (- 1) 10 = 10"
  using get_kerrigan_level_caps [of example_tables
      "example_ctx\<lparr>kerrigan_levels_per_mission_completed := 3, kerrigan_total_level_cap := 10\<rparr>"
      "[ZERG \<mapsto> [0, 5]]" 2]
  by (simp add: acc_get_def norm_index_def example_tables_def example_ctx_def
      blended_level_spec_def capped_def)

end
